theory Spec2Isabelle
  imports Complex_Main "HOL-Library.Log_Nat" "HOL-Library.AList"
begin

section \<open>Python values\<close>

text \<open>
  The program is dynamically typed: a raw record holds whatever the CSV reader (strings,
  \<open>None\<close>, lists) or the JSON decoder (any JSON value) produced. Values are modelled by one
  datatype. A Python \<open>float\<close> is an IEEE binary64 number: it is modelled by its exact
  rational value, or one of the two infinities, or NaN. The sign of a zero is not
  represented: no comparison and no exception of this program depends on it.
  Strings are lists of \<open>char\<close>, read as the code points below 256.
\<close>

datatype pyfloat = Fin rat | PosInf | NegInf | NaN

datatype pykey = KNone | KStr string

datatype pyval =
    PNone
  | PBool bool
  | PInt int
  | PFloat pyfloat
  | PStr string
  | PList "pyval list"
  | PDict "(pykey \<times> pyval) list"

datatype pyexc =
    TypeError | ValueError | KeyError | IndexError | AttributeError
  | OverflowError | ZeroDivisionError

type_synonym 'a result = "pyexc + 'a"

definition bindE :: "'a result \<Rightarrow> ('a \<Rightarrow> 'b result) \<Rightarrow> 'b result" where
  "bindE m f = (case m of Inl e \<Rightarrow> Inl e | Inr x \<Rightarrow> f x)"

section \<open>Binary64 arithmetic\<close>

text \<open>
  Every float operation of Python returns the exact result rounded to the nearest
  binary64 number, ties to the even significand; a result beyond the largest finite
  number becomes an infinity. \<open>fl\<close> is that rounding, on exact rationals.
\<close>

definition pow2 :: "int \<Rightarrow> rat" where
  "pow2 k = (if 0 \<le> k then 2 ^ nat k else 1 / 2 ^ nat (- k))"

text \<open>The exponent \<open>e\<close> with \<open>2 ^ e \<le> q < 2 ^ (e + 1)\<close>, for \<open>q > 0\<close>.\<close>

definition floorlog2 :: "rat \<Rightarrow> int" where
  "floorlog2 q =
     (case quotient_of q of (a, b) \<Rightarrow>
        (let k = bitlen a - bitlen b in if pow2 k \<le> q then k else k - 1))"

text \<open>Rounding a rational to the nearest integer, ties to the even one.\<close>

definition rhe :: "rat \<Rightarrow> int" where
  "rhe q =
     (let f = \<lfloor>q\<rfloor>; d = q - of_int f in
      if d < 1 / 2 then f
      else if 1 / 2 < d then f + 1
      else if even f then f else f + 1)"

definition dbl_max :: rat where
  "dbl_max = 2 ^ 1024 - 2 ^ 971"

text \<open>
  Rounding of a positive rational: 53 significant bits, and no bit below
  \<open>2 ^ (- 1074)\<close> (the subnormal numbers).
\<close>

definition fl_abs :: "rat \<Rightarrow> rat" where
  "fl_abs q =
     (let p = max (floorlog2 q - 52) (- 1074) in of_int (rhe (q / pow2 p)) * pow2 p)"

definition fl :: "rat \<Rightarrow> pyfloat" where
  "fl q =
     (if q = 0 then Fin 0
      else if 0 < q then (let r = fl_abs q in if dbl_max < r then PosInf else Fin r)
      else (let r = fl_abs (- q) in if dbl_max < r then NegInf else Fin (- r)))"


fun f_neg :: "pyfloat \<Rightarrow> pyfloat" where
  "f_neg (Fin a) = Fin (- a)"
| "f_neg PosInf = NegInf"
| "f_neg NegInf = PosInf"
| "f_neg NaN = NaN"

fun f_add :: "pyfloat \<Rightarrow> pyfloat \<Rightarrow> pyfloat" where
  "f_add (Fin a) (Fin b) = fl (a + b)"
| "f_add NaN _ = NaN"
| "f_add _ NaN = NaN"
| "f_add PosInf NegInf = NaN"
| "f_add NegInf PosInf = NaN"
| "f_add PosInf _ = PosInf"
| "f_add NegInf _ = NegInf"
| "f_add _ PosInf = PosInf"
| "f_add _ NegInf = NegInf"

definition f_sub :: "pyfloat \<Rightarrow> pyfloat \<Rightarrow> pyfloat" where
  "f_sub a b = f_add a (f_neg b)"

text \<open>The sign of a float: \<open>None\<close> for NaN, otherwise \<open>-1\<close>, \<open>0\<close> or \<open>1\<close>.\<close>

fun f_sgn :: "pyfloat \<Rightarrow> int option" where
  "f_sgn (Fin a) = Some (if a < 0 then - 1 else if a = 0 then 0 else 1)"
| "f_sgn PosInf = Some 1"
| "f_sgn NegInf = Some (- 1)"
| "f_sgn NaN = None"

definition inf_of_sign :: "int \<Rightarrow> pyfloat" where
  "inf_of_sign s = (if s = 0 then NaN else if 0 < s then PosInf else NegInf)"

fun f_mul :: "pyfloat \<Rightarrow> pyfloat \<Rightarrow> pyfloat" where
  "f_mul (Fin a) (Fin b) = fl (a * b)"
| "f_mul a b =
     (case (f_sgn a, f_sgn b) of
        (Some s, Some t) \<Rightarrow> inf_of_sign (s * t)
      | _ \<Rightarrow> NaN)"

text \<open>
  Python's float division raises \<open>ZeroDivisionError\<close> on a zero divisor, whatever the
  dividend; apart from that it is the IEEE division.
\<close>

fun f_div :: "pyfloat \<Rightarrow> pyfloat \<Rightarrow> pyfloat result" where
  "f_div a (Fin b) =
     (if b = 0 then Inl ZeroDivisionError
      else Inr (case a of
                  Fin x \<Rightarrow> fl (x / b)
                | NaN \<Rightarrow> NaN
                | PosInf \<Rightarrow> (if b < 0 then NegInf else PosInf)
                | NegInf \<Rightarrow> (if b < 0 then PosInf else NegInf)))"
| "f_div (Fin a) PosInf = Inr (Fin 0)"
| "f_div (Fin a) NegInf = Inr (Fin 0)"
| "f_div _ _ = Inr NaN"

fun f_lt :: "pyfloat \<Rightarrow> pyfloat \<Rightarrow> bool" where
  "f_lt (Fin a) (Fin b) = (a < b)"
| "f_lt NaN _ = False"
| "f_lt _ NaN = False"
| "f_lt _ NegInf = False"
| "f_lt PosInf _ = False"
| "f_lt _ PosInf = True"
| "f_lt NegInf _ = True"

fun f_le :: "pyfloat \<Rightarrow> pyfloat \<Rightarrow> bool" where
  "f_le (Fin a) (Fin b) = (a \<le> b)"
| "f_le NaN _ = False"
| "f_le _ NaN = False"
| "f_le NegInf _ = True"
| "f_le _ PosInf = True"
| "f_le _ NegInf = False"
| "f_le PosInf _ = False"

text \<open>
  \<open>float(i)\<close> for an integer is correctly rounded and raises \<open>OverflowError\<close> when the
  integer is too large; \<open>int(x)\<close> for a float truncates towards zero and raises
  \<open>OverflowError\<close> on an infinity, \<open>ValueError\<close> on NaN.
\<close>

definition float_of_int :: "int \<Rightarrow> pyfloat result" where
  "float_of_int i = (case fl (of_int i) of Fin r \<Rightarrow> Inr (Fin r) | _ \<Rightarrow> Inl OverflowError)"

definition trunc :: "rat \<Rightarrow> int" where
  "trunc q = (if 0 \<le> q then \<lfloor>q\<rfloor> else - \<lfloor>- q\<rfloor>)"

fun int_of_float :: "pyfloat \<Rightarrow> int result" where
  "int_of_float (Fin q) = Inr (trunc q)"
| "int_of_float NaN = Inl ValueError"
| "int_of_float _ = Inl OverflowError"

text \<open>
  \<open>round(x, 2)\<close> on a float: the exact value is rounded to two decimals, ties to even,
  and the decimal result is converted back to the nearest float; infinities and NaN
  round to themselves.
\<close>

fun f_round2 :: "pyfloat \<Rightarrow> pyfloat result" where
  "f_round2 (Fin q) =
     (case fl (of_int (rhe (q * 100)) / 100) of
        Fin r \<Rightarrow> Inr (Fin r)
      | _ \<Rightarrow> Inl OverflowError)"
| "f_round2 x = Inr x"

section \<open>Python's operators on values\<close>

text \<open>
  \<open>bool\<close> is a subclass of \<open>int\<close>: \<open>True\<close> counts as 1. An operator applied to an
  integer and a float first converts the integer (raising \<open>OverflowError\<close> when it is
  too large), then works on floats.
\<close>

datatype pynum = NInt int | NFloat pyfloat

fun num_of :: "pyval \<Rightarrow> pynum option" where
  "num_of (PBool b) = Some (NInt (if b then 1 else 0))"
| "num_of (PInt i) = Some (NInt i)"
| "num_of (PFloat x) = Some (NFloat x)"
| "num_of _ = None"

fun to_float :: "pynum \<Rightarrow> pyfloat result" where
  "to_float (NInt i) = float_of_int i"
| "to_float (NFloat x) = Inr x"

text \<open>Integers and floats are compared by their exact values.\<close>

fun exact :: "pynum \<Rightarrow> pyfloat" where
  "exact (NInt i) = Fin (of_int i)"
| "exact (NFloat x) = x"

definition float_op :: "(pyfloat \<Rightarrow> pyfloat \<Rightarrow> pyfloat) \<Rightarrow> pynum \<Rightarrow> pynum \<Rightarrow> pyval result" where
  "float_op f x y =
     bindE (to_float x) (\<lambda>a. bindE (to_float y) (\<lambda>b. Inr (PFloat (f a b))))"

text \<open>
  \<open>a / b\<close>: two integers are divided exactly and the quotient rounded once
  (\<open>OverflowError\<close> when it is too large for a float).
\<close>

definition py_truediv :: "pyval \<Rightarrow> pyval \<Rightarrow> pyval result" where
  "py_truediv a b =
     (case (num_of a, num_of b) of
        (Some (NInt x), Some (NInt y)) \<Rightarrow>
          (if y = 0 then Inl ZeroDivisionError
           else (case fl (of_int x / of_int y) of
                   Fin r \<Rightarrow> Inr (PFloat (Fin r))
                 | _ \<Rightarrow> Inl OverflowError))
      | (Some x, Some y) \<Rightarrow>
          bindE (to_float x) (\<lambda>fa. bindE (to_float y) (\<lambda>fb.
            bindE (f_div fa fb) (\<lambda>r. Inr (PFloat r))))
      | _ \<Rightarrow> Inl TypeError)"

text \<open>\<open>a * b\<close>: a string or a list times an integer is repeated.\<close>

definition py_mul :: "pyval \<Rightarrow> pyval \<Rightarrow> pyval result" where
  "py_mul a b =
     (case (num_of a, num_of b) of
        (Some (NInt x), Some (NInt y)) \<Rightarrow> Inr (PInt (x * y))
      | (Some x, Some y) \<Rightarrow> float_op f_mul x y
      | (Some (NInt n), None) \<Rightarrow>
          (case b of
             PStr s \<Rightarrow> Inr (PStr (concat (replicate (nat n) s)))
           | PList xs \<Rightarrow> Inr (PList (concat (replicate (nat n) xs)))
           | _ \<Rightarrow> Inl TypeError)
      | (None, Some (NInt n)) \<Rightarrow>
          (case a of
             PStr s \<Rightarrow> Inr (PStr (concat (replicate (nat n) s)))
           | PList xs \<Rightarrow> Inr (PList (concat (replicate (nat n) xs)))
           | _ \<Rightarrow> Inl TypeError)
      | _ \<Rightarrow> Inl TypeError)"

text \<open>\<open>a + b\<close>: two strings or two lists are concatenated.\<close>

definition py_add :: "pyval \<Rightarrow> pyval \<Rightarrow> pyval result" where
  "py_add a b =
     (case (num_of a, num_of b) of
        (Some (NInt x), Some (NInt y)) \<Rightarrow> Inr (PInt (x + y))
      | (Some x, Some y) \<Rightarrow> float_op f_add x y
      | (None, None) \<Rightarrow>
          (case (a, b) of
             (PStr s, PStr t) \<Rightarrow> Inr (PStr (s @ t))
           | (PList xs, PList ys) \<Rightarrow> Inr (PList (xs @ ys))
           | _ \<Rightarrow> Inl TypeError)
      | _ \<Rightarrow> Inl TypeError)"

definition py_sub :: "pyval \<Rightarrow> pyval \<Rightarrow> pyval result" where
  "py_sub a b =
     (case (num_of a, num_of b) of
        (Some (NInt x), Some (NInt y)) \<Rightarrow> Inr (PInt (x - y))
      | (Some x, Some y) \<Rightarrow> float_op f_sub x y
      | _ \<Rightarrow> Inl TypeError)"

text \<open>\<open>round(x, 2)\<close>: an integer is returned as it is.\<close>

fun py_round2 :: "pyval \<Rightarrow> pyval result" where
  "py_round2 (PFloat x) = bindE (f_round2 x) (\<lambda>r. Inr (PFloat r))"
| "py_round2 (PInt i) = Inr (PInt i)"
| "py_round2 (PBool b) = Inr (PInt (if b then 1 else 0))"
| "py_round2 _ = Inl TypeError"

text \<open>
  The ordering comparisons, for the case this program evaluates: at least one operand
  is a number. Comparing a number with anything that is not a number raises
  \<open>TypeError\<close>.
\<close>

definition py_lt :: "pyval \<Rightarrow> pyval \<Rightarrow> bool result" where
  "py_lt a b =
     (case (num_of a, num_of b) of
        (Some x, Some y) \<Rightarrow> Inr (f_lt (exact x) (exact y))
      | _ \<Rightarrow> Inl TypeError)"

definition py_le :: "pyval \<Rightarrow> pyval \<Rightarrow> bool result" where
  "py_le a b =
     (case (num_of a, num_of b) of
        (Some x, Some y) \<Rightarrow> Inr (f_le (exact x) (exact y))
      | _ \<Rightarrow> Inl TypeError)"

definition py_gt :: "pyval \<Rightarrow> pyval \<Rightarrow> bool result" where
  "py_gt a b = py_lt b a"

definition py_ge :: "pyval \<Rightarrow> pyval \<Rightarrow> bool result" where
  "py_ge a b = py_le b a"

text \<open>\<open>a and b\<close> on booleans, with \<open>b\<close> evaluated only when \<open>a\<close> is true.\<close>

definition py_and :: "bool result \<Rightarrow> bool result \<Rightarrow> bool result" where
  "py_and a b = bindE a (\<lambda>x. if x then b else Inr False)"

text \<open>Truth value of an object, as \<open>not data\<close> tests it.\<close>

fun truthy :: "pyval \<Rightarrow> bool" where
  "truthy PNone = False"
| "truthy (PBool b) = b"
| "truthy (PInt i) = (i \<noteq> 0)"
| "truthy (PFloat x) = (x \<noteq> Fin 0)"
| "truthy (PStr s) = (s \<noteq> [])"
| "truthy (PList xs) = (xs \<noteq> [])"
| "truthy (PDict d) = (d \<noteq> [])"

text \<open>\<open>len(x)\<close>; a dictionary is a list of entries with distinct keys.\<close>

fun py_len :: "pyval \<Rightarrow> nat result" where
  "py_len (PStr s) = Inr (length s)"
| "py_len (PList xs) = Inr (length xs)"
| "py_len (PDict d) = Inr (length d)"
| "py_len _ = Inl TypeError"

section \<open>Strings\<close>

definition is_digit :: "char \<Rightarrow> bool" where
  "is_digit c \<longleftrightarrow> c \<in> set ''0123456789''"

definition digit_val :: "char \<Rightarrow> nat" where
  "digit_val c = of_char c - 48"

definition nat_of_digits :: "string \<Rightarrow> nat" where
  "nat_of_digits ds = foldl (\<lambda>n c. 10 * n + digit_val c) 0 ds"

text \<open>The decimal representation of a natural number, as \<open>str\<close> and f-strings give it.\<close>

definition digit_char :: "nat \<Rightarrow> char" where
  "digit_char d = ''0123456789'' ! d"

fun digits_of :: "nat \<Rightarrow> string" where
  "digits_of n =
     (if n < 10 then [digit_char n] else digits_of (n div 10) @ [digit_char (n mod 10)])"

text \<open>\<open>sep.join(xs)\<close>.\<close>

fun join :: "string \<Rightarrow> string list \<Rightarrow> string" where
  "join sep [] = []"
| "join sep [x] = x"
| "join sep (x # y # ys) = x @ sep @ join sep (y # ys)"

text \<open>
  \<open>str.strip()\<close> removes the white space of \<open>str.isspace\<close> at both ends: below
  code point 256 these are 9 to 13, 28 to 32, 133 and 160.
\<close>

definition py_isspace :: "char \<Rightarrow> bool" where
  "py_isspace c \<longleftrightarrow>
     (let n = (of_char c :: nat) in (9 \<le> n \<and> n \<le> 13) \<or> (28 \<le> n \<and> n \<le> 32) \<or> n = 133 \<or> n = 160)"

definition strip_with :: "(char \<Rightarrow> bool) \<Rightarrow> string \<Rightarrow> string" where
  "strip_with P s = rev (dropWhile P (rev (dropWhile P s)))"

definition py_strip :: "string \<Rightarrow> string" where
  "py_strip s = strip_with py_isspace s"

section \<open>The builtin \<open>float\<close>\<close>

text \<open>
  \<open>float(s)\<close> on a string: characters 133 and 160 count as blanks, the blanks of C's
  \<open>isspace\<close> are stripped at both ends, an underscore is allowed between two digits
  only, and the rest is an optional sign followed by a decimal number with an optional
  exponent, or by \<open>inf\<close>, \<open>infinity\<close> or \<open>nan\<close> in any case. The decimal number is
  rounded to the nearest float; an overflow gives an infinity, not an exception.
\<close>

definition c_isspace :: "char \<Rightarrow> bool" where
  "c_isspace c \<longleftrightarrow> (let n = (of_char c :: nat) in (9 \<le> n \<and> n \<le> 13) \<or> n = 32)"

definition blank_latin1 :: "char \<Rightarrow> char" where
  "blank_latin1 c = (if (of_char c :: nat) = 133 \<or> (of_char c :: nat) = 160 then CHR '' '' else c)"

fun drop_underscores :: "char \<Rightarrow> string \<Rightarrow> string option" where
  "drop_underscores prev [] = (if prev = CHR ''_'' then None else Some [])"
| "drop_underscores prev (c # cs) =
     (if c = CHR ''_'' then (if is_digit prev then drop_underscores c cs else None)
      else if prev = CHR ''_'' \<and> \<not> is_digit c then None
      else map_option ((#) c) (drop_underscores c cs))"

definition split_sign :: "string \<Rightarrow> bool \<times> string" where
  "split_sign s =
     (case s of
        [] \<Rightarrow> (False, [])
      | c # cs \<Rightarrow>
          if c = CHR ''-'' then (True, cs)
          else if c = CHR ''+'' then (False, cs)
          else (False, s))"

definition pow10 :: "int \<Rightarrow> rat" where
  "pow10 k = (if 0 \<le> k then 10 ^ nat k else 1 / 10 ^ nat (- k))"

definition parse_exponent :: "string \<Rightarrow> int option" where
  "parse_exponent s =
     (case split_sign s of (neg, ds) \<Rightarrow>
        if ds \<noteq> [] \<and> list_all is_digit ds
        then Some (if neg then - int (nat_of_digits ds) else int (nat_of_digits ds))
        else None)"

definition parse_decimal :: "string \<Rightarrow> rat option" where
  "parse_decimal s =
     (let ip = takeWhile is_digit s;
          r1 = dropWhile is_digit s;
          fp = (case r1 of c # cs \<Rightarrow> if c = CHR ''.'' then takeWhile is_digit cs else [] | [] \<Rightarrow> []);
          r2 = (case r1 of c # cs \<Rightarrow> if c = CHR ''.'' then dropWhile is_digit cs else r1 | [] \<Rightarrow> []);
          m = of_nat (nat_of_digits (ip @ fp))
      in if ip = [] \<and> fp = [] then None
         else (case r2 of
                 [] \<Rightarrow> Some (m * pow10 (- int (length fp)))
               | c # cs \<Rightarrow>
                   if c = CHR ''e'' \<or> c = CHR ''E''
                   then map_option (\<lambda>e. m * pow10 (e - int (length fp))) (parse_exponent cs)
                   else None))"

definition to_lower :: "char \<Rightarrow> char" where
  "to_lower c =
     (let n = (of_char c :: nat) in if 65 \<le> n \<and> n \<le> 90 then char_of (n + 32) else c)"

definition float_of_string :: "string \<Rightarrow> pyfloat result" where
  "float_of_string s =
     (case drop_underscores (CHR 0x00) (strip_with c_isspace (map blank_latin1 s)) of
        None \<Rightarrow> Inl ValueError
      | Some u \<Rightarrow>
          (case split_sign u of (neg, body) \<Rightarrow>
             (case parse_decimal body of
                Some q \<Rightarrow> Inr (fl (if neg then - q else q))
              | None \<Rightarrow>
                  if map to_lower body = ''inf'' \<or> map to_lower body = ''infinity''
                  then Inr (if neg then NegInf else PosInf)
                  else if map to_lower body = ''nan'' then Inr NaN
                  else Inl ValueError)))"

text \<open>\<open>float(v)\<close> on any value.\<close>

fun py_float :: "pyval \<Rightarrow> pyfloat result" where
  "py_float (PFloat x) = Inr x"
| "py_float (PInt i) = float_of_int i"
| "py_float (PBool b) = Inr (Fin (if b then 1 else 0))"
| "py_float (PStr s) = float_of_string s"
| "py_float _ = Inl TypeError"

section \<open>The campaign analyser\<close>

text \<open>
  A dictionary is the list of its items in insertion order; \<open>d[k] = v\<close> is
  \<open>AList.update\<close>, which replaces the value of a key that is present and appends a new
  key at the end. The keys are strings, or \<open>None\<close> (the key under which the CSV reader
  stores the cells beyond the header).
\<close>

type_synonym pydict = "(pykey \<times> pyval) list"

definition lookup :: "pydict \<Rightarrow> string \<Rightarrow> pyval result" where
  "lookup d k = (case map_of d (KStr k) of Some v \<Rightarrow> Inr v | None \<Rightarrow> Inl KeyError)"

subsection \<open>The tables set up by the constructor\<close>

definition required_fields :: "string list" where
  "required_fields =
     [''campaign_id'', ''engagement_score'', ''conversion_rate'', ''predictive_roi'',
      ''budget_usd'', ''total_campaign_spend'', ''new_customers_acquired'',
      ''customers_start'', ''customers_end'', ''revenue_generated'', ''advertising_spend'']"

definition in_closed_range :: "int \<Rightarrow> int \<Rightarrow> pyval \<Rightarrow> bool result" where
  "in_closed_range lo hi x = py_and (py_le (PInt lo) x) (py_le x (PInt hi))"

definition positive :: "pyval \<Rightarrow> bool result" where
  "positive x = py_gt x (PInt 0)"

fun isinstance_int :: "pyval \<Rightarrow> bool" where
  "isinstance_int (PInt i) = True"
| "isinstance_int (PBool b) = True"
| "isinstance_int _ = False"

definition positive_int :: "pyval \<Rightarrow> bool result" where
  "positive_int x = py_and (py_gt x (PInt 0)) (Inr (isinstance_int x))"

definition field_validations :: "(string \<times> (pyval \<Rightarrow> bool result)) list" where
  "field_validations =
     [(''engagement_score'', in_closed_range 0 100),
      (''conversion_rate'', in_closed_range 0 1),
      (''predictive_roi'', positive),
      (''budget_usd'', positive),
      (''total_campaign_spend'', positive),
      (''new_customers_acquired'', positive_int),
      (''customers_start'', positive_int),
      (''customers_end'', positive_int),
      (''revenue_generated'', positive),
      (''advertising_spend'', positive)]"

definition thresholds :: pydict where
  "thresholds =
     [(KStr ''composite_score'', PInt 50),
      (KStr ''cac'', PInt 50),
      (KStr ''retention_rate'', PInt 90),
      (KStr ''roas'', PInt 3)]"

subsection \<open>\<open>parse_data\<close>\<close>

definition format_error :: pyval where
  "format_error =
     PDict [(KStr ''error'',
             PStr ''ERROR: Invalid data format. Please provide data in CSV or JSON format.'')]"

text \<open>
  The two library decoders are parameters. \<open>json_loads s\<close> is \<open>json.loads(s)\<close> for a
  text that starts with a brace: the decoded object, or \<open>None\<close> for
  \<open>JSONDecodeError\<close>. \<open>csv_DictReader s\<close> is \<open>list(csv.DictReader(io.StringIO(s)))\<close>:
  the rows as dictionaries, or \<open>None\<close> when the reader raises.
\<close>

definition parse_data ::
  "(string \<Rightarrow> pydict option) \<Rightarrow> (string \<Rightarrow> pydict list option) \<Rightarrow> string \<Rightarrow> pyval" where
  "parse_data json_loads csv_DictReader data_str =
     (let data_str = py_strip data_str in
      if (case data_str of c # cs \<Rightarrow> c = CHR ''{'' | [] \<Rightarrow> False) then
        (case json_loads data_str of
           Some json_data \<Rightarrow>
             (case map_of json_data (KStr ''campaigns'') of
                Some campaigns \<Rightarrow> campaigns
              | None \<Rightarrow> PList [PDict json_data])
         | None \<Rightarrow> format_error)
      else if CHR '','' \<in> set data_str then
        (case csv_DictReader data_str of
           Some rows \<Rightarrow> PList (map PDict rows)
         | None \<Rightarrow> format_error)
      else format_error)"

subsection \<open>\<open>_convert_field_types\<close>\<close>

text \<open>Only \<open>ValueError\<close> and \<open>TypeError\<close> are caught by the \<open>try\<close> blocks.\<close>

definition caught :: "pyexc \<Rightarrow> bool" where
  "caught e \<longleftrightarrow> e = ValueError \<or> e = TypeError"

definition count_fields :: "string list" where
  "count_fields = [''new_customers_acquired'', ''customers_start'', ''customers_end'']"

definition convert_value :: "pykey \<Rightarrow> pyval \<Rightarrow> pyval result" where
  "convert_value key v =
     (case key of
        KNone \<Rightarrow> Inr v
      | KStr k \<Rightarrow>
          if k \<in> set count_fields then
            (case bindE (py_float v) int_of_float of
               Inr i \<Rightarrow> Inr (PInt i)
             | Inl e \<Rightarrow> if caught e then Inr v else Inl e)
          else if k \<in> set (map fst field_validations) \<and> k \<noteq> ''campaign_id'' then
            (case py_float v of
               Inr x \<Rightarrow> Inr (PFloat x)
             | Inl e \<Rightarrow> if caught e then Inr v else Inl e)
          else Inr v)"

fun convert_items :: "pydict \<Rightarrow> pydict \<Rightarrow> pydict result" where
  "convert_items [] converted = Inr converted"
| "convert_items ((key, v) # rest) converted =
     bindE (convert_value key v) (\<lambda>c. convert_items rest (AList.update key c converted))"

text \<open>\<open>record.items()\<close> exists for a dictionary only.\<close>

fun convert_field_types :: "pyval \<Rightarrow> pydict result" where
  "convert_field_types (PDict items) = convert_items items []"
| "convert_field_types _ = Inl AttributeError"

subsection \<open>\<open>validate_data\<close>\<close>

record validation_result =
  is_valid :: bool
  errors :: "pyval list"
  report :: string
  data :: "pydict list"

text \<open>The state of the loop over the records.\<close>

record vstate =
  valid :: bool
  errs :: "string list"
  validated_data :: "pydict list"

definition missing_fields :: "pydict \<Rightarrow> string list" where
  "missing_fields converted =
     filter (\<lambda>field. map_of converted (KStr field) = None) required_fields"

definition missing_error :: "string list \<Rightarrow> nat \<Rightarrow> string" where
  "missing_error missing idx =
     ''ERROR: Missing required field(s): '' @ join '', '' missing @ '' in row ''
       @ digits_of (idx + 1) @ ''.''"

definition invalid_error :: "string list \<Rightarrow> nat \<Rightarrow> string" where
  "invalid_error invalid idx =
     ''ERROR: Invalid value for the field(s): '' @ join '', '' invalid @ '' in row ''
       @ digits_of (idx + 1) @ ''. Please correct and resubmit.''"

text \<open>Whether a field is collected as invalid: its predicate is false, or raises.\<close>

definition field_invalid :: "pydict \<Rightarrow> string \<times> (pyval \<Rightarrow> bool result) \<Rightarrow> bool result" where
  "field_invalid converted fv =
     (case fv of (field, validation_func) \<Rightarrow>
        bindE (lookup converted field) (\<lambda>v.
          case validation_func v of
            Inr ok \<Rightarrow> Inr (\<not> ok)
          | Inl e \<Rightarrow> if caught e then Inr True else Inl e))"

fun invalid_fields ::
  "pydict \<Rightarrow> (string \<times> (pyval \<Rightarrow> bool result)) list \<Rightarrow> string list result" where
  "invalid_fields converted [] = Inr []"
| "invalid_fields converted (fv # rest) =
     bindE (field_invalid converted fv) (\<lambda>bad.
       bindE (invalid_fields converted rest) (\<lambda>more.
         Inr (if bad then fst fv # more else more)))"

definition validate_record :: "nat \<Rightarrow> pyval \<Rightarrow> vstate \<Rightarrow> vstate result" where
  "validate_record idx record st =
     bindE (convert_field_types record) (\<lambda>converted_record.
       let missing = missing_fields converted_record in
       if missing \<noteq> [] then
         Inr (st\<lparr>valid := False, errs := errs st @ [missing_error missing idx]\<rparr>)
       else
         bindE (invalid_fields converted_record field_validations) (\<lambda>invalid.
           if invalid \<noteq> [] then
             Inr (st\<lparr>valid := False, errs := errs st @ [invalid_error invalid idx]\<rparr>)
           else
             Inr (st\<lparr>validated_data := validated_data st @ [converted_record]\<rparr>)))"

fun validate_loop :: "nat \<Rightarrow> pyval list \<Rightarrow> vstate \<Rightarrow> vstate result" where
  "validate_loop idx [] st = Inr st"
| "validate_loop idx (record # rest) st =
     bindE (validate_record idx record st) (validate_loop (Suc idx) rest)"

text \<open>\<open>data[0]\<close> and the iteration \<open>enumerate(data)\<close>, for whatever \<open>data\<close> is.\<close>

fun first_item :: "pyval \<Rightarrow> pyval result" where
  "first_item (PList xs) = (case xs of [] \<Rightarrow> Inl IndexError | x # _ \<Rightarrow> Inr x)"
| "first_item (PStr s) = (case s of [] \<Rightarrow> Inl IndexError | c # _ \<Rightarrow> Inr (PStr [c]))"
| "first_item (PDict d) = Inl KeyError"
| "first_item _ = Inl TypeError"

fun key_val :: "pykey \<Rightarrow> pyval" where
  "key_val KNone = PNone"
| "key_val (KStr k) = PStr k"

fun py_iter :: "pyval \<Rightarrow> pyval list result" where
  "py_iter (PList xs) = Inr xs"
| "py_iter (PStr s) = Inr (map (\<lambda>c. PStr [c]) s)"
| "py_iter (PDict d) = Inr (map (key_val \<circ> fst) d)"
| "py_iter _ = Inl TypeError"

definition nl :: string where
  "nl = [CHR 0x0A]"

definition field_range :: "string \<Rightarrow> string" where
  "field_range field =
     (if field = ''engagement_score'' then ''(0 to 100)''
      else if field = ''conversion_rate'' then ''(0 to 1)''
      else if field \<in> set [''predictive_roi'', ''budget_usd'', ''total_campaign_spend'',
                             ''revenue_generated'', ''advertising_spend'']
        then ''(positive number)''
      else if field \<in> set [''new_customers_acquired'', ''customers_start'', ''customers_end'']
        then ''(positive integer)''
      else [])"

definition report_text :: "nat \<Rightarrow> nat \<Rightarrow> bool \<Rightarrow> string list \<Rightarrow> string" where
  "report_text n_campaigns n_fields ok es =
     ''# Data Validation Report'' @ nl
     @ ''## Data Structure Check:'' @ nl
     @ '' - Number of campaigns: '' @ digits_of n_campaigns @ nl
     @ '' - Number of fields per record: '' @ digits_of n_fields @ nl @ nl
     @ ''## Required Fields Check:'' @ nl
     @ concat (map (\<lambda>field. '' - '' @ field @ '': ''
                      @ (if ok then ''present'' else ''missing'') @ nl) required_fields)
     @ nl @ ''## Data Type and Value Validation:'' @ nl
     @ concat (map (\<lambda>fv. '' - '' @ fst fv @ '' '' @ field_range (fst fv) @ '': ''
                      @ (if ok then ''validated'' else ''not valid'') @ nl) field_validations)
     @ nl @ ''Validation Summary:'' @ nl
     @ (if ok then ''Data validation is successful!'' else join nl es)"

definition validate_data :: "pyval \<Rightarrow> validation_result result" where
  "validate_data d =
     (if \<not> truthy d then
        Inr \<lparr>is_valid = False, errors = [PStr ''ERROR: No data provided.''],
             report = [], data = []\<rparr>
      else
        (case (case d of PDict items \<Rightarrow> map_of items (KStr ''error'') | _ \<Rightarrow> None) of
           Some msg \<Rightarrow> Inr \<lparr>is_valid = False, errors = [msg], report = [], data = []\<rparr>
         | None \<Rightarrow>
             bindE (py_len d) (\<lambda>n_campaigns.
             bindE (first_item d) (\<lambda>first_record.
             bindE (py_len first_record) (\<lambda>n_fields.
             bindE (py_iter d) (\<lambda>records.
             bindE (validate_loop 0 records \<lparr>valid = True, errs = [], validated_data = []\<rparr>)
               (\<lambda>st.
                  Inr \<lparr>is_valid = valid st, errors = map PStr (errs st),
                       report = report_text n_campaigns n_fields (valid st) (errs st),
                       data = validated_data st\<rparr>)))))))"

subsection \<open>\<open>analyze_campaigns\<close>\<close>

text \<open>
  The function returns the text of the analysis; the model returns, for each campaign,
  the values that text is rendered from. Every expression that can raise is evaluated
  in the order of the source: the eleven fields printed under "Input Data", the three
  basic metrics, the conversion percentage printed in step 1, the six terms, the
  composite score, the threshold printed in section 3, the cost efficiency and the two
  decisions.
\<close>

record analysis =
  campaign_id :: pyval
  cac :: pyval
  retention_rate :: pyval
  roas :: pyval
  composite_score :: pyval
  cost_efficiency :: pyval
  budget_recommendation :: string
  meets_thresholds :: bool
  status :: string
  action :: string

text \<open>A float literal of the source denotes the nearest float.\<close>

definition lit :: "rat \<Rightarrow> pyval" where
  "lit q = PFloat (fl q)"

definition analyze_campaign :: "pydict \<Rightarrow> pydict \<Rightarrow> analysis result" where
  "analyze_campaign th campaign =
     bindE (lookup campaign ''campaign_id'') (\<lambda>cid.
     bindE (lookup campaign ''engagement_score'') (\<lambda>engagement_score.
     bindE (lookup campaign ''conversion_rate'') (\<lambda>conversion_rate.
     bindE (lookup campaign ''predictive_roi'') (\<lambda>predictive_roi.
     bindE (lookup campaign ''budget_usd'') (\<lambda>budget_usd.
     bindE (lookup campaign ''total_campaign_spend'') (\<lambda>total_campaign_spend.
     bindE (lookup campaign ''new_customers_acquired'') (\<lambda>new_customers_acquired.
     bindE (lookup campaign ''customers_start'') (\<lambda>customers_start.
     bindE (lookup campaign ''customers_end'') (\<lambda>customers_end.
     bindE (lookup campaign ''revenue_generated'') (\<lambda>revenue_generated.
     bindE (lookup campaign ''advertising_spend'') (\<lambda>advertising_spend.
     bindE (bindE (py_truediv total_campaign_spend new_customers_acquired) py_round2) (\<lambda>cac.
     bindE (bindE (bindE (bindE (py_sub customers_end new_customers_acquired)
                            (\<lambda>d. py_truediv d customers_start))
                     (\<lambda>r. py_mul r (PInt 100))) py_round2) (\<lambda>retention_rate.
     bindE (bindE (py_truediv revenue_generated advertising_spend) py_round2) (\<lambda>roas.
     bindE (py_mul conversion_rate (PInt 100)) (\<lambda>conversion_percentage.
     bindE (bindE (py_mul engagement_score (lit (5 / 10))) py_round2) (\<lambda>term1.
     bindE (bindE (py_mul conversion_percentage (lit (3 / 10))) py_round2) (\<lambda>term2.
     bindE (bindE (bindE (py_mul predictive_roi (PInt 10)) (\<lambda>x. py_mul x (lit (2 / 10))))
              py_round2) (\<lambda>term3.
     bindE (bindE (py_mul cac (lit (5 / 100))) py_round2) (\<lambda>term4.
     bindE (bindE (py_mul retention_rate (lit (1 / 10))) py_round2) (\<lambda>term5.
     bindE (bindE (py_mul roas (lit (1 / 10))) py_round2) (\<lambda>term6.
     bindE (bindE (bindE (bindE (bindE (bindE (py_add term1 term2) (\<lambda>s. py_add s term3))
                                   (\<lambda>s. py_sub s term4))
                            (\<lambda>s. py_add s term5))
                     (\<lambda>s. py_add s term6)) py_round2) (\<lambda>composite_score.
     bindE (lookup th ''composite_score'') (\<lambda>shown.
     bindE (bindE (py_truediv composite_score budget_usd) py_round2) (\<lambda>cost_efficiency.
     bindE (py_gt cost_efficiency (lit (5 / 100))) (\<lambda>cost_effective.
     bindE (py_and (bindE (lookup th ''composite_score'') (py_ge composite_score))
             (py_and (bindE (lookup th ''cac'') (py_le cac))
               (py_and (bindE (lookup th ''retention_rate'') (py_ge retention_rate))
                       (bindE (lookup th ''roas'') (py_ge roas))))) (\<lambda>meets.
       Inr \<lparr>campaign_id = cid, cac = cac, retention_rate = retention_rate, roas = roas,
            composite_score = composite_score, cost_efficiency = cost_efficiency,
            budget_recommendation =
              (if cost_effective then ''The campaign is considered cost-effective.''
               else ''Recommend a reassessment of the campaign budget.''),
            meets_thresholds = meets,
            status = (if meets then ''Optimal'' else ''Needs Improvement''),
            action =
              (if meets then ''Maintain or scale up the campaign.''
               else ''Re-evaluate the campaign strategy by increasing customer engagement, reducing campaign spend to lower CAC, implementing retention programs to improve the Retention Rate, and optimizing advertising spend to enhance ROAS.'')\<rparr>
     ))))))))))))))))))))))))))"

fun analyze_campaigns :: "pydict \<Rightarrow> pydict list \<Rightarrow> analysis list result" where
  "analyze_campaigns th [] = Inr []"
| "analyze_campaigns th (campaign # rest) =
     bindE (analyze_campaign th campaign) (\<lambda>a.
       bindE (analyze_campaigns th rest) (\<lambda>more. Inr (a # more)))"

subsection \<open>\<open>process_data\<close>\<close>

text \<open>
  The result is either the validation report alone, or the validation report followed
  by the analysis.
\<close>

datatype outcome = ValidationReport string | FullReport string "analysis list"

definition process_data ::
  "(string \<Rightarrow> pydict option) \<Rightarrow> (string \<Rightarrow> pydict list option) \<Rightarrow> pydict \<Rightarrow> string
     \<Rightarrow> outcome result" where
  "process_data json_loads csv_DictReader th data_str =
     (let parsed_data = parse_data json_loads csv_DictReader data_str in
      bindE (validate_data parsed_data) (\<lambda>validation_result.
        if \<not> is_valid validation_result then Inr (ValidationReport (report validation_result))
        else
          bindE (analyze_campaigns th (data validation_result)) (\<lambda>analysis_report.
            Inr (FullReport (report validation_result) analysis_report))))"

subsection \<open>Notions used to state the properties\<close>

text \<open>
  A float read from the input is a binary64 number, so a finite one is at most the
  largest finite float.
\<close>

fun in_range :: "pyfloat \<Rightarrow> bool" where
  "in_range (Fin q) = (\<bar>q\<bar> \<le> dbl_max)"
| "in_range _ = True"

fun float_ok :: "pyval \<Rightarrow> bool" where
  "float_ok (PFloat x) = in_range x"
| "float_ok _ = True"

fun record_ok :: "pyval \<Rightarrow> bool" where
  "record_ok (PDict items) = list_all (\<lambda>kv. float_ok (snd kv)) items"
| "record_ok _ = True"

text \<open>
  A converted record passes the Validator: all eleven required fields are present and
  every domain predicate is true on its field.
\<close>

definition record_passes :: "pydict \<Rightarrow> bool" where
  "record_passes c \<longleftrightarrow>
     list_all (\<lambda>field. map_of c (KStr field) \<noteq> None) required_fields \<and>
     list_all (\<lambda>fv. case map_of c (KStr (fst fv)) of
                        Some v \<Rightarrow> snd fv v = Inr True
                      | None \<Rightarrow> False) field_validations"

definition errors_of :: "validation_result result \<Rightarrow> pyval list" where
  "errors_of r = (case r of Inr res \<Rightarrow> errors res | Inl e \<Rightarrow> [])"

text \<open>The fields converted to floats.\<close>

definition float_fields :: "string list" where
  "float_fields = [''engagement_score'', ''conversion_rate'', ''predictive_roi'', ''budget_usd'',
     ''total_campaign_spend'', ''revenue_generated'', ''advertising_spend'']"

text \<open>
  Two JSON records used as examples: a valid one, and the same without
  \<open>revenue_generated\<close>.
\<close>

definition good_record :: pydict where
  "good_record =
     [(KStr ''campaign_id'', PStr ''CAMP601''), (KStr ''engagement_score'', PInt 80),
      (KStr ''conversion_rate'', PFloat (Fin (1 / 4))), (KStr ''predictive_roi'', PInt 7),
      (KStr ''budget_usd'', PInt 1500), (KStr ''total_campaign_spend'', PInt 1400),
      (KStr ''new_customers_acquired'', PInt 30), (KStr ''customers_start'', PInt 300),
      (KStr ''customers_end'', PInt 330), (KStr ''revenue_generated'', PInt 2100),
      (KStr ''advertising_spend'', PInt 350)]"

definition scenario_B :: pydict where
  "scenario_B =
     [(KStr ''campaign_id'', PStr ''CAMP601''), (KStr ''engagement_score'', PInt 80),
      (KStr ''conversion_rate'', PFloat (Fin (1 / 4))), (KStr ''predictive_roi'', PInt 7),
      (KStr ''budget_usd'', PInt 1500), (KStr ''total_campaign_spend'', PInt 1400),
      (KStr ''new_customers_acquired'', PInt 30), (KStr ''customers_start'', PInt 300),
      (KStr ''customers_end'', PInt 330), (KStr ''advertising_spend'', PInt 350)]"

text \<open>
  A decoder that agrees with \<open>json.loads\<close> on the three texts below, and on the
  malformed text that consists of one opening brace; no other text is given to it.
\<close>

definition text_campaigns_5 :: string where
  \<open>text_campaigns_5 = ''{"campaigns": 5}''\<close>

definition text_campaigns_list :: string where
  \<open>text_campaigns_list = ''{"campaigns": [{"campaign_id": "CAMP601"}]}''\<close>

definition text_single :: string where
  \<open>text_single = ''{"campaign_id": "CAMP601"}''\<close>

definition json_example :: "string \<Rightarrow> pydict option" where
  "json_example s =
     (if s = text_campaigns_5 then Some [(KStr ''campaigns'', PInt 5)]
      else if s = text_campaigns_list
        then Some [(KStr ''campaigns'', PList [PDict [(KStr ''campaign_id'', PStr ''CAMP601'')]])]
      else if s = text_single then Some [(KStr ''campaign_id'', PStr ''CAMP601'')]
      else None)"

text \<open>
  Scenario A: the row as the CSV reader yields it (every cell a string), the text it
  comes from, a reader that agrees with \<open>csv.DictReader\<close> on that text, and the record
  after conversion.
\<close>

definition scenario_A :: pydict where
  "scenario_A =
     [(KStr ''campaign_id'', PStr ''CAMP601''), (KStr ''engagement_score'', PStr ''80''),
      (KStr ''conversion_rate'', PStr ''0.25''), (KStr ''predictive_roi'', PStr ''7''),
      (KStr ''budget_usd'', PStr ''1500''), (KStr ''total_campaign_spend'', PStr ''1400''),
      (KStr ''new_customers_acquired'', PStr ''30''), (KStr ''customers_start'', PStr ''300''),
      (KStr ''customers_end'', PStr ''330''), (KStr ''revenue_generated'', PStr ''2100''),
      (KStr ''advertising_spend'', PStr ''350'')]"

definition text_A :: string where
  "text_A =
     ''campaign_id,engagement_score,conversion_rate,predictive_roi,budget_usd,total_campaign_spend,new_customers_acquired,customers_start,customers_end,revenue_generated,advertising_spend''
     @ nl @ ''CAMP601,80,0.25,7,1500,1400,30,300,330,2100,350''"

definition csv_example :: "string \<Rightarrow> pydict list option" where
  "csv_example s = (if s = text_A then Some [scenario_A] else None)"

definition converted_A :: pydict where
  "converted_A =
     [(KStr ''campaign_id'', PStr ''CAMP601''), (KStr ''engagement_score'', PFloat (Fin 80)),
      (KStr ''conversion_rate'', PFloat (Fin (1 / 4))), (KStr ''predictive_roi'', PFloat (Fin 7)),
      (KStr ''budget_usd'', PFloat (Fin 1500)), (KStr ''total_campaign_spend'', PFloat (Fin 1400)),
      (KStr ''new_customers_acquired'', PInt 30), (KStr ''customers_start'', PInt 300),
      (KStr ''customers_end'', PInt 330), (KStr ''revenue_generated'', PFloat (Fin 2100)),
      (KStr ''advertising_spend'', PFloat (Fin 350))]"

text \<open>The analysis of scenario A.\<close>

definition analysis_A_result :: analysis where
  "analysis_A_result =
     \<lparr>campaign_id = PStr ''CAMP601'', cac = lit (4667 / 100), retention_rate = lit 100,
      roas = lit 6, composite_score = lit (6977 / 100), cost_efficiency = lit (5 / 100),
      budget_recommendation = ''Recommend a reassessment of the campaign budget.'',
      meets_thresholds = True, status = ''Optimal'',
      action = ''Maintain or scale up the campaign.''\<rparr>"

text \<open>
  The results of the operations that can raise, where they do not: the rounding to two
  decimals, the float division, the conversion of an integer and the division of two
  integers.
\<close>

definition round2_value :: "pyfloat \<Rightarrow> pyfloat" where
  "round2_value x = (case f_round2 x of Inr y \<Rightarrow> y | Inl e \<Rightarrow> x)"

definition div_value :: "pyfloat \<Rightarrow> pyfloat \<Rightarrow> pyfloat" where
  "div_value x y = (case f_div x y of Inr z \<Rightarrow> z | Inl e \<Rightarrow> NaN)"

definition float_value :: "int \<Rightarrow> rat" where
  "float_value n = (case fl (of_int n) of Fin r \<Rightarrow> r | _ \<Rightarrow> 0)"

definition ratio_value :: "int \<Rightarrow> int \<Rightarrow> rat" where
  "ratio_value a n = (case fl (of_int a / of_int n) of Fin r \<Rightarrow> r | _ \<Rightarrow> 0)"

text \<open>
  A valid JSON record with more new customers than customers at the end, the record after
  conversion, and its analysis.
\<close>

definition record_neg :: pydict where
  "record_neg =
     [(KStr ''campaign_id'', PStr ''CAMP601''), (KStr ''engagement_score'', PInt 80),
      (KStr ''conversion_rate'', PFloat (Fin (1 / 4))), (KStr ''predictive_roi'', PInt 7),
      (KStr ''budget_usd'', PInt 1500), (KStr ''total_campaign_spend'', PInt 1400),
      (KStr ''new_customers_acquired'', PInt 2), (KStr ''customers_start'', PInt 100000),
      (KStr ''customers_end'', PInt 1), (KStr ''revenue_generated'', PInt 2100),
      (KStr ''advertising_spend'', PInt 350)]"

definition converted_neg :: pydict where
  "converted_neg =
     [(KStr ''campaign_id'', PStr ''CAMP601''), (KStr ''engagement_score'', PFloat (Fin 80)),
      (KStr ''conversion_rate'', PFloat (Fin (1 / 4))), (KStr ''predictive_roi'', PFloat (Fin 7)),
      (KStr ''budget_usd'', PFloat (Fin 1500)), (KStr ''total_campaign_spend'', PFloat (Fin 1400)),
      (KStr ''new_customers_acquired'', PInt 2), (KStr ''customers_start'', PInt 100000),
      (KStr ''customers_end'', PInt 1), (KStr ''revenue_generated'', PFloat (Fin 2100)),
      (KStr ''advertising_spend'', PFloat (Fin 350))]"

definition analysis_neg :: analysis where
  "analysis_neg =
     \<lparr>campaign_id = PStr ''CAMP601'', cac = lit 700, retention_rate = PFloat (Fin 0),
      roas = lit 6, composite_score = lit (271 / 10), cost_efficiency = lit (2 / 100),
      budget_recommendation = ''Recommend a reassessment of the campaign budget.'',
      meets_thresholds = False, status = ''Needs Improvement'',
      action = ''Re-evaluate the campaign strategy by increasing customer engagement, reducing campaign spend to lower CAC, implementing retention programs to improve the Retention Rate, and optimizing advertising spend to enhance ROAS.''\<rparr>"

text \<open>
  The JSON texts of the valid record, and of the batch of that record followed by the one
  without \<open>revenue_generated\<close>, with a decoder that agrees with \<open>json.loads\<close> on the
  two texts; no other text is given to it.
\<close>

definition text_good :: string where
  \<open>text_good = ''{"campaign_id": "CAMP601", "engagement_score": 80, "conversion_rate": 0.25, "predictive_roi": 7, "budget_usd": 1500, "total_campaign_spend": 1400, "new_customers_acquired": 30, "customers_start": 300, "customers_end": 330, "revenue_generated": 2100, "advertising_spend": 350}''\<close>

definition text_batch :: string where
  \<open>text_batch = ''{"campaigns": [{"campaign_id": "CAMP601", "engagement_score": 80, "conversion_rate": 0.25, "predictive_roi": 7, "budget_usd": 1500, "total_campaign_spend": 1400, "new_customers_acquired": 30, "customers_start": 300, "customers_end": 330, "revenue_generated": 2100, "advertising_spend": 350}, {"campaign_id": "CAMP601", "engagement_score": 80, "conversion_rate": 0.25, "predictive_roi": 7, "budget_usd": 1500, "total_campaign_spend": 1400, "new_customers_acquired": 30, "customers_start": 300, "customers_end": 330, "advertising_spend": 350}]}''\<close>

definition json_records :: "string \<Rightarrow> pydict option" where
  "json_records s =
     (if s = text_good then Some good_record
      else if s = text_batch
        then Some [(KStr ''campaigns'', PList [PDict good_record, PDict scenario_B])]
      else None)"

section \<open>Properties of the rounding\<close>

lemma pow2_powi: "pow2 k = power_int 2 k"
  by (simp add: pow2_def power_int_def inverse_eq_divide power_one_over)

lemma pow2_pos: "0 < pow2 k"
  by (simp add: pow2_powi zero_less_power_int)

lemma pow2_add: "pow2 (a + b) = pow2 a * pow2 b"
  by (simp add: pow2_powi power_int_add)

lemma pow2_mono: "a \<le> b \<Longrightarrow> pow2 a \<le> pow2 b"
  by (simp add: pow2_powi power_int_increasing)

lemma pow2_less_cancel: "pow2 a < pow2 b \<Longrightarrow> a < b"
  using pow2_mono [of b a] by (cases "a < b") auto

lemma pow2_of_nat: "pow2 (int n) = 2 ^ n"
  by (simp add: pow2_def)

lemma floorlog2_bounds:
  assumes "0 < q"
  shows "pow2 (floorlog2 q) \<le> q \<and> q < pow2 (floorlog2 q + 1)"
proof -
  obtain a b where ab: "quotient_of q = (a, b)" by (cases "quotient_of q")
  have b: "0 < b" using ab by (rule quotient_of_denom_pos)
  have q: "q = of_int a / of_int b" using ab by (rule quotient_of_div)
  have a: "0 < a" using assms b q by (simp add: zero_less_divide_iff)
  define la where "la = bitlen a"
  define lb where "lb = bitlen b"
  have la: "2 ^ nat (la - 1) \<le> a" "a < 2 ^ nat la"
    using bitlen_bounds [OF a] by (simp_all add: la_def)
  have lb: "2 ^ nat (lb - 1) \<le> b" "b < 2 ^ nat lb"
    using bitlen_bounds [OF b] by (simp_all add: lb_def)
  have la1: "1 \<le> la" using a bitlen_eq_zero_iff [of a] bitlen_nonneg [of a] by (simp add: la_def) 
  have lb1: "1 \<le> lb" using b bitlen_eq_zero_iff [of b] bitlen_nonneg [of b] by (simp add: lb_def) 
  have A1: "pow2 (la - 1) \<le> of_int a"
  proof -
    have "(of_int (2 ^ nat (la - 1)) :: rat) \<le> of_int a" using la(1) by (simp only: of_int_le_iff)
    then show ?thesis using la1 by (simp add: pow2_def)
  qed
  have A2: "of_int a < pow2 la"
  proof -
    have "(of_int a :: rat) < of_int (2 ^ nat la)" using la(2) by (simp only: of_int_less_iff)
    then show ?thesis using la1 by (simp add: pow2_def)
  qed
  have B1: "pow2 (lb - 1) \<le> of_int b"
  proof -
    have "(of_int (2 ^ nat (lb - 1)) :: rat) \<le> of_int b" using lb(1) by (simp only: of_int_le_iff)
    then show ?thesis using lb1 by (simp add: pow2_def)
  qed
  have B2: "of_int b < pow2 lb"
  proof -
    have "(of_int b :: rat) < of_int (2 ^ nat lb)" using lb(2) by (simp only: of_int_less_iff)
    then show ?thesis using lb1 by (simp add: pow2_def)
  qed
  have bq: "(0::rat) < of_int b" using b by simp
  have up: "q < pow2 (la - lb + 1)"
  proof -
    have "of_int a < pow2 (la - lb + 1) * pow2 (lb - 1)"
      using A2 pow2_add [of "la - lb + 1" "lb - 1"] by simp
    also have "\<dots> \<le> pow2 (la - lb + 1) * of_int b"
      using B1 pow2_pos [of "la - lb + 1"] by (simp add: mult_left_mono)
    finally show ?thesis using bq by (simp add: q pos_divide_less_eq)
  qed
  have lo: "pow2 (la - lb - 1) < q"
  proof -
    have "pow2 (la - lb - 1) * of_int b < pow2 (la - lb - 1) * pow2 lb"
      using B2 pow2_pos [of "la - lb - 1"] by (simp add: mult_strict_left_mono)
    also have "\<dots> = pow2 (la - 1)" using pow2_add [of "la - lb - 1" lb] by simp
    also have "\<dots> \<le> of_int a" by (rule A1)
    finally show ?thesis using bq by (simp add: q pos_less_divide_eq)
  qed
  show ?thesis
  proof (cases "pow2 (la - lb) \<le> q")
    case True
    then have "floorlog2 q = la - lb"
      by (simp add: floorlog2_def ab la_def lb_def Let_def)
    then show ?thesis using True up by simp
  next
    case False
    then have "floorlog2 q = la - lb - 1"
      by (simp add: floorlog2_def ab la_def lb_def Let_def)
    then show ?thesis using False lo by simp
  qed
qed

lemma floorlog2_eqI:
  assumes "pow2 e \<le> q" "q < pow2 (e + 1)"
  shows "floorlog2 q = e"
proof -
  have q: "0 < q" using assms(1) pow2_pos [of e] by simp
  note b = floorlog2_bounds [OF q]
  have "pow2 e < pow2 (floorlog2 q + 1)" using assms(1) b by simp
  then have 1: "e < floorlog2 q + 1" by (rule pow2_less_cancel)
  have "pow2 (floorlog2 q) < pow2 (e + 1)" using assms(2) b by simp
  then have 2: "floorlog2 q < e + 1" by (rule pow2_less_cancel)
  from 1 2 show ?thesis by simp
qed

lemma rhe_eqI:
  assumes "of_int m - 1 / 2 < q" "q < of_int m + 1 / 2"
  shows "rhe q = m"
proof -
  consider "\<lfloor>q\<rfloor> = m" | "\<lfloor>q\<rfloor> = m - 1"
  proof -
    have "m - 1 \<le> \<lfloor>q\<rfloor>" using assms(1) by (simp add: le_floor_iff)
    moreover have "q < of_int (m + 1)" using assms(2) by simp
    then have "\<lfloor>q\<rfloor> < m + 1" by (simp only: floor_less_iff)
    ultimately show ?thesis using that by linarith
  qed
  then show ?thesis
  proof cases
    case 1
    then have "q - of_int \<lfloor>q\<rfloor> < 1 / 2" using assms(2) by simp
    then show ?thesis using 1 by (simp add: rhe_def Let_def)
  next
    case 2
    then have "1 / 2 < q - of_int \<lfloor>q\<rfloor>" using assms(1) by simp
    then show ?thesis using 2 by (simp add: rhe_def Let_def)
  qed
qed

lemma rhe_of_int: "rhe (of_int m) = m"
  by (rule rhe_eqI) simp_all

lemma rhe_le: "q \<le> of_int n \<Longrightarrow> rhe q \<le> n"
proof -
  assume a: "q \<le> of_int n"
  have f: "\<lfloor>q\<rfloor> \<le> n" using a by (simp add: floor_le_iff)
  show ?thesis
  proof (cases "\<lfloor>q\<rfloor> = n")
    case True
    then have "q = of_int n" using a by (metis of_int_floor_le order_antisym)
    then show ?thesis by (simp add: rhe_of_int)
  next
    case False
    then have "\<lfloor>q\<rfloor> + 1 \<le> n" using f by simp
    then show ?thesis by (simp add: rhe_def Let_def)
  qed
qed

lemma rhe_ge: "of_int n \<le> q \<Longrightarrow> n \<le> rhe q"
proof -
  assume a: "of_int n \<le> q"
  then have "n \<le> \<lfloor>q\<rfloor>" by (simp add: le_floor_iff)
  then show ?thesis by (simp add: rhe_def Let_def)
qed

lemma rhe_close: "\<bar>of_int (rhe q) - q\<bar> \<le> 1 / 2"
proof -
  have "of_int \<lfloor>q\<rfloor> \<le> q" "q < of_int \<lfloor>q\<rfloor> + 1" by linarith+
  then show ?thesis by (auto simp add: rhe_def Let_def abs_le_iff)
qed


lemma rhe_le_half:
  assumes "q < of_int n + 1 / 2"
  shows "rhe q \<le> n"
proof -
  have "q < of_int (n + 1)" using assms by simp
  then have f: "\<lfloor>q\<rfloor> < n + 1" by (simp only: floor_less_iff)
  show ?thesis
  proof (cases "\<lfloor>q\<rfloor> = n")
    case True
    then have "q - of_int \<lfloor>q\<rfloor> < 1 / 2" using assms by simp
    then show ?thesis using True by (simp add: rhe_def Let_def)
  next
    case False
    then have "\<lfloor>q\<rfloor> + 1 \<le> n" using f by simp
    then show ?thesis by (simp add: rhe_def Let_def)
  qed
qed

lemma fl_abs_nonneg: "0 < q \<Longrightarrow> 0 \<le> fl_abs q"
proof -
  assume q: "0 < q"
  define p where "p = max (floorlog2 q - 52) (- 1074)"
  have "of_int 0 \<le> q / pow2 p" using q pow2_pos [of p] by simp
  then have "0 \<le> rhe (q / pow2 p)" by (rule rhe_ge)
  then show ?thesis using pow2_pos [of p] by (simp add: fl_abs_def p_def [symmetric] Let_def)
qed

lemma fl_abs_le_pow:
  assumes q: "0 < q"
  shows "fl_abs q \<le> 2 ^ 53 * pow2 (max (floorlog2 q - 52) (- 1074))"
proof -
  define e where "e = floorlog2 q"
  define p where "p = max (e - 52) (- 1074)"
  have "q < pow2 (e + 1)" using floorlog2_bounds [OF q] by (simp add: e_def)
  also have "pow2 (e + 1) \<le> pow2 (p + 53)" by (rule pow2_mono) (simp add: p_def)
  also have "\<dots> = pow2 p * 2 ^ 53" using pow2_add [of p 53] by (simp add: pow2_def)
  finally have "q / pow2 p \<le> of_int (2 ^ 53)"
    using pow2_pos [of p] by (simp add: pos_divide_le_eq mult.commute)
  then have "rhe (q / pow2 p) \<le> 2 ^ 53" by (rule rhe_le)
  then have "(of_int (rhe (q / pow2 p)) :: rat) \<le> of_int (2 ^ 53)" by (simp only: of_int_le_iff)
  then have "of_int (rhe (q / pow2 p)) * pow2 p \<le> of_int (2 ^ 53) * pow2 p"
    using pow2_pos [of p] by (simp only: mult_le_cancel_right) simp
  then show ?thesis by (simp add: fl_abs_def e_def [symmetric] p_def [symmetric] Let_def)
qed

lemma fl_abs_upper:
  assumes q: "0 < q" and b: "q < 2 ^ 1024 - 2 ^ 970"
  shows "fl_abs q \<le> dbl_max"
proof -
  define e where "e = floorlog2 q"
  define p where "p = max (e - 52) (- 1074)"
  have "pow2 e \<le> q" using floorlog2_bounds [OF q] by (simp add: e_def)
  also have "q < 2 ^ 1024" using b by simp
  also have "(2::rat) ^ 1024 = pow2 1024" by (simp add: pow2_def)
  finally have "e < 1024" by (rule pow2_less_cancel)
  then have p: "p \<le> 971" by (simp add: p_def)
  show ?thesis
  proof (cases "p = 971")
    case True
    have "q / pow2 p < of_int (2 ^ 53 - 1) + 1 / 2"
      using b by (simp add: True pow2_def)
    then have "rhe (q / pow2 p) \<le> 2 ^ 53 - 1" by (rule rhe_le_half)
    then have "(of_int (rhe (q / pow2 p)) :: rat) \<le> of_int (2 ^ 53 - 1)"
      by (simp only: of_int_le_iff)
    then have "of_int (rhe (q / pow2 p)) * pow2 p \<le> of_int (2 ^ 53 - 1) * pow2 p"
      using pow2_pos [of p] by (simp only: mult_le_cancel_right) simp
    also have "of_int (2 ^ 53 - 1) * pow2 p = dbl_max"
      by (simp add: True pow2_def dbl_max_def)
    finally show ?thesis by (simp add: fl_abs_def e_def [symmetric] p_def [symmetric] Let_def)
  next
    case False
    then have "p \<le> 970" using p by simp
    then have "pow2 p \<le> pow2 970" by (rule pow2_mono)
    then have "2 ^ 53 * pow2 p \<le> 2 ^ 53 * pow2 970" by simp
    also have "\<dots> \<le> dbl_max" by (simp add: pow2_def dbl_max_def)
    finally show ?thesis using fl_abs_le_pow [OF q] by (simp add: e_def p_def)
  qed
qed

lemma fl_abs_lower:
  assumes q: "pow2 k \<le> q" and k: "- 1022 \<le> k"
  shows "pow2 k \<le> fl_abs q"
proof -
  have q0: "0 < q" using q pow2_pos [of k] by simp
  define e where "e = floorlog2 q"
  define p where "p = max (e - 52) (- 1074)"
  have "pow2 k \<le> q" by (rule q)
  also have "q < pow2 (e + 1)" using floorlog2_bounds [OF q0] by (simp add: e_def)
  finally have ke: "k \<le> e" using pow2_less_cancel by fastforce
  then have p: "p = e - 52" using k by (simp add: p_def)
  have "pow2 e \<le> q" using floorlog2_bounds [OF q0] by (simp add: e_def)
  moreover have "pow2 e = pow2 p * 2 ^ 52" using pow2_add [of p 52] by (simp add: p pow2_def)
  ultimately have "of_int (2 ^ 52) \<le> q / pow2 p"
    using pow2_pos [of p] by (simp add: pos_le_divide_eq mult.commute)
  then have "2 ^ 52 \<le> rhe (q / pow2 p)" by (rule rhe_ge)
  then have "(of_int (2 ^ 52) :: rat) \<le> of_int (rhe (q / pow2 p))" by (simp only: of_int_le_iff)
  then have "of_int (2 ^ 52) * pow2 p \<le> of_int (rhe (q / pow2 p)) * pow2 p"
    using pow2_pos [of p] by (simp only: mult_le_cancel_right) simp
  moreover have "of_int (2 ^ 52) * pow2 p = pow2 e" using pow2_add [of p 52] by (simp add: p pow2_def)
  moreover have "pow2 k \<le> pow2 e" using ke by (rule pow2_mono)
  ultimately show ?thesis by (simp add: fl_abs_def e_def [symmetric] p_def [symmetric] Let_def)
qed

text \<open>What a finite result of the rounding looks like.\<close>

lemma fl_Fin_bound: "fl q = Fin r \<Longrightarrow> \<bar>r\<bar> \<le> dbl_max"
  using fl_abs_nonneg [of q] fl_abs_nonneg [of "- q"]
  by (auto simp add: fl_def Let_def dbl_max_def split: if_splits)

lemma fl_finite:
  assumes "\<bar>q\<bar> < 2 ^ 1024 - 2 ^ 970"
  shows "\<exists>r. fl q = Fin r"
proof -
  consider "q = 0" | "0 < q" | "q < 0" by linarith
  then show ?thesis
  proof cases
    case 1 then show ?thesis by (simp add: fl_def)
  next
    case 2
    then have "fl_abs q \<le> dbl_max" using assms by (intro fl_abs_upper) simp_all
    then show ?thesis using 2 by (simp add: fl_def Let_def)
  next
    case 3
    then have "fl_abs (- q) \<le> dbl_max" using assms by (intro fl_abs_upper) simp_all
    then show ?thesis using 3 by (simp add: fl_def Let_def)
  qed
qed

lemma fl_nonpos: "q \<le> 0 \<Longrightarrow> fl q = NegInf \<or> (\<exists>r. fl q = Fin r \<and> r \<le> 0)"
  using fl_abs_nonneg [of "- q"] by (auto simp add: fl_def Let_def)

lemma fl_nonneg: "0 \<le> q \<Longrightarrow> fl q = PosInf \<or> (\<exists>r. fl q = Fin r \<and> 0 \<le> r)"
  using fl_abs_nonneg [of q] by (auto simp add: fl_def Let_def)

lemma fl_ge_1: "1 \<le> q \<Longrightarrow> fl q = PosInf \<or> (\<exists>r. fl q = Fin r \<and> 1 \<le> r)"
  using fl_abs_lower [of 0 q] by (auto simp add: fl_def Let_def pow2_def)

text \<open>Evaluating the rounding at a given number, from its exponent and significand.\<close>

lemma fl_posI:
  assumes "pow2 e \<le> q" "q < pow2 (e + 1)" "max (e - 52) (- 1074) = p"
    and "of_int m - 1 / 2 < q / pow2 p" "q / pow2 p < of_int m + 1 / 2"
    and "of_int m * pow2 p = r" "r \<le> dbl_max"
  shows "fl q = Fin r"
proof -
  have q: "0 < q" using assms(1) pow2_pos [of e] by simp
  have e: "floorlog2 q = e" using assms(1,2) by (rule floorlog2_eqI)
  have m: "rhe (q / pow2 p) = m" using assms(4,5) by (rule rhe_eqI)
  have "fl_abs q = r" using assms(3,6) by (simp add: fl_abs_def e m Let_def)
  then show ?thesis using q assms(7) by (simp add: fl_def Let_def)
qed

lemma fl_negI: "fl q = Fin r \<Longrightarrow> fl (- q) = Fin (- r)"
  by (auto simp add: fl_def Let_def split: if_splits)

section \<open>Properties of the conversions\<close>

lemma bindE_Inr_iff: "bindE m f = Inr y \<longleftrightarrow> (\<exists>x. m = Inr x \<and> f x = Inr y)"
  by (cases m) (simp_all add: bindE_def)

lemma bindE_Inr [simp]: "bindE (Inr x) f = f x"
  by (simp add: bindE_def)

lemma bindE_Inl [simp]: "bindE (Inl e) f = Inl e"
  by (simp add: bindE_def)

lemma trunc_abs_le: "\<bar>of_int (trunc q)\<bar> \<le> \<bar>q\<bar>"
proof (cases "0 \<le> q")
  case True
  then have "0 \<le> \<lfloor>q\<rfloor>" by simp
  then show ?thesis using True by (simp add: trunc_def)
next
  case False
  then have "0 \<le> \<lfloor>- q\<rfloor>" by simp
  then have "\<bar>(of_int (- \<lfloor>- q\<rfloor>) :: rat)\<bar> = of_int \<lfloor>- q\<rfloor>" by simp
  also have "\<dots> \<le> - q" by (rule of_int_floor_le)
  finally show ?thesis using False by (simp add: trunc_def)
qed

lemma in_range_fl [simp]: "in_range (fl q)"
  using fl_Fin_bound [of q] by (cases "fl q") simp_all

lemma float_of_string_cases:
  "float_of_string s = Inl ValueError \<or> (\<exists>x. float_of_string s = Inr x \<and> in_range x)"
  by (auto simp add: float_of_string_def split: option.splits prod.splits)

lemma float_of_int_cases:
  "float_of_int i = Inl OverflowError \<or> (\<exists>r. float_of_int i = Inr (Fin r) \<and> \<bar>r\<bar> \<le> dbl_max)"
  using fl_Fin_bound [of "of_int i"] by (cases "fl (of_int i)") (simp_all add: float_of_int_def)

text \<open>What \<open>float(v)\<close> gives on a value whose floats are in range.\<close>

lemma py_float_cases:
  assumes "float_ok v"
  shows "(\<exists>x. py_float v = Inr x \<and> in_range x \<and> (num_of v = None \<longrightarrow> (\<exists>s. v = PStr s)))
       \<or> (py_float v = Inl OverflowError)
       \<or> ((py_float v = Inl ValueError \<or> py_float v = Inl TypeError) \<and> num_of v = None)"
proof (cases v)
  case (PInt i)
  then show ?thesis using float_of_int_cases [of i] by auto
next
  case (PStr s)
  then show ?thesis using float_of_string_cases [of s] by auto
qed (use assms in \<open>auto simp add: dbl_max_def\<close>)

lemma convert_count:
  assumes k: "k \<in> set count_fields" and c: "convert_value (KStr k) v = Inr c" and ok: "float_ok v"
  shows "(\<exists>n. c = PInt n \<and> \<bar>of_int n\<bar> \<le> dbl_max) \<or> (c = v \<and> (num_of v = None \<or> v = PFloat NaN))"
proof -
  from py_float_cases [OF ok] consider
      x where "py_float v = Inr x" "in_range x" "num_of v = None \<longrightarrow> (\<exists>s. v = PStr s)"
    | "py_float v = Inl OverflowError"
    | "py_float v = Inl ValueError \<or> py_float v = Inl TypeError" "num_of v = None"
    by auto
  then show ?thesis
  proof cases
    case 1
    show ?thesis
    proof (cases x)
      case (Fin q)
      then have "c = PInt (trunc q)" using c k 1 by (simp add: convert_value_def)
      moreover have "\<bar>of_int (trunc q)\<bar> \<le> dbl_max"
        using trunc_abs_le [of q] 1(2) Fin by simp
      ultimately show ?thesis by blast
    next
      case NaN
      then have cv: "c = v" using c k 1 by (simp add: convert_value_def caught_def)
      show ?thesis
      proof (cases "num_of v")
        case None then show ?thesis using cv by simp
      next
        case (Some a)
        then have "v = PFloat NaN" using 1(1) NaN
          by (cases v) (auto simp add: float_of_int_def split: pyfloat.splits if_splits)
        then show ?thesis using cv by simp
      qed
    qed (use c k 1 in \<open>simp_all add: convert_value_def caught_def\<close>)
  next
    case 2
    then show ?thesis using c k by (simp add: convert_value_def caught_def)
  next
    case 3
    then show ?thesis using c k by (auto simp add: convert_value_def caught_def)
  qed
qed

lemma convert_float:
  assumes k: "k \<in> set float_fields" and c: "convert_value (KStr k) v = Inr c" and ok: "float_ok v"
  shows "(\<exists>x. c = PFloat x \<and> in_range x) \<or> (c = v \<and> num_of v = None)"
proof -
  have k1: "k \<notin> set count_fields" "k \<in> set (map fst field_validations)" "k \<noteq> ''campaign_id''"
    using k by (auto simp add: float_fields_def count_fields_def field_validations_def)
  from py_float_cases [OF ok] consider
      x where "py_float v = Inr x" "in_range x"
    | "py_float v = Inl OverflowError"
    | "py_float v = Inl ValueError \<or> py_float v = Inl TypeError" "num_of v = None"
    by auto
  then show ?thesis
  proof cases
    case 1
    then show ?thesis using c k1 by (auto simp add: convert_value_def)
  next
    case 2
    then show ?thesis using c k1 by (simp add: convert_value_def caught_def)
  next
    case 3
    then show ?thesis using c k1 by (auto simp add: convert_value_def caught_def)
  qed
qed


lemma py_float_Fin_bound:
  assumes "float_ok v" "py_float v = Inr (Fin q)"
  shows "\<bar>q\<bar> \<le> dbl_max"
  using py_float_cases [OF assms(1)] assms(2) by auto

lemma convert_count_shape:
  assumes k: "k \<in> set count_fields" and c: "convert_value (KStr k) v = Inr c"
  shows "(\<exists>q. py_float v = Inr (Fin q) \<and> c = PInt (trunc q))
       \<or> (c = v \<and> (num_of v = None \<or> v = PFloat NaN) \<and> (\<forall>q. py_float v \<noteq> Inr (Fin q)))"
proof (cases "py_float v")
  case (Inl e)
  then have e: "caught e" "c = v" using c k by (auto simp add: convert_value_def split: if_splits)
  have "num_of v = None"
    using Inl e(1) by (cases v) (auto simp add: caught_def float_of_int_def split: pyfloat.splits)
  then show ?thesis using Inl e by simp
next
  case (Inr x)
  show ?thesis
  proof (cases x)
    case (Fin q)
    then show ?thesis using c k Inr by (simp add: convert_value_def)
  next
    case NaN
    then have cv: "c = v" using c k Inr by (simp add: convert_value_def caught_def)
    have "num_of v = None \<or> v = PFloat NaN"
      using Inr NaN by (cases v) (auto simp add: float_of_int_def split: pyfloat.splits if_splits)
    then show ?thesis using cv Inr NaN by simp
  qed (use c k Inr in \<open>simp_all add: convert_value_def caught_def\<close>)
qed

lemma py_gt_zero_True:
  "py_gt c (PInt 0) = Inr True \<longleftrightarrow> (\<exists>a. num_of c = Some a \<and> f_lt (Fin 0) (exact a))"
  by (cases "num_of c") (simp_all add: py_gt_def py_lt_def)

lemma positive_int_eq_positive:
  assumes "isinstance_int c \<or> num_of c = None \<or> c = PFloat NaN"
  shows "positive_int c = positive c"
  using assms
  by (cases c) (auto simp add: positive_int_def positive_def py_and_def py_gt_def py_lt_def)

lemma positive_int_True:
  assumes "positive_int c = Inr True"
  shows "(\<exists>n. c = PInt n \<and> 0 < n) \<or> c = PBool True"
  using assms
  by (cases c) (auto simp add: positive_int_def py_and_def py_gt_def py_lt_def split: if_splits)

lemma positive_True:
  assumes "positive c = Inr True" "(\<exists>x. c = PFloat x \<and> in_range x) \<or> num_of c = None"
  shows "\<exists>x. c = PFloat x \<and> in_range x \<and> f_lt (Fin 0) x"
  using assms by (cases c) (auto simp add: positive_def py_gt_def py_lt_def)

lemma in_closed_range_True:
  assumes "in_closed_range lo hi c = Inr True" "(\<exists>x. c = PFloat x \<and> in_range x) \<or> num_of c = None"
  shows "\<exists>q. c = PFloat (Fin q) \<and> of_int lo \<le> q \<and> q \<le> of_int hi"
proof -
  from assms obtain x where x: "c = PFloat x"
    by (cases c) (auto simp add: in_closed_range_def py_and_def py_le_def)
  then have "f_le (Fin (of_int lo)) x" "f_le x (Fin (of_int hi))"
    using assms(1) by (auto simp add: in_closed_range_def py_and_def py_le_def split: if_splits)
  then show ?thesis using x by (cases x) simp_all
qed


section \<open>Properties of the Validator\<close>

lemma convert_items_lookup:
  assumes "convert_items items acc = Inr c" "map_of c k = Some w"
  shows "map_of acc k = Some w \<or> (\<exists>v. (k, v) \<in> set items \<and> convert_value k v = Inr w)"
  using assms
proof (induction items arbitrary: acc)
  case Nil
  then show ?case by simp
next
  case (Cons kv rest)
  obtain key v where kv: "kv = (key, v)" by (cases kv)
  from Cons.prems(1) obtain cv where cv: "convert_value key v = Inr cv"
    and rest: "convert_items rest (AList.update key cv acc) = Inr c"
    by (auto simp add: kv bindE_Inr_iff)
  from Cons.IH [OF rest Cons.prems(2)] show ?case
  proof
    assume "map_of (AList.update key cv acc) k = Some w"
    then show ?thesis using cv by (auto simp add: kv update_conv' split: if_splits)
  next
    assume "\<exists>v. (k, v) \<in> set rest \<and> convert_value k v = Inr w"
    then show ?thesis by (auto simp add: kv)
  qed
qed

lemma converted_field:
  assumes "convert_field_types r = Inr c" "record_ok r" "map_of c k = Some w"
  shows "\<exists>v. float_ok v \<and> convert_value k v = Inr w"
proof -
  from assms(1) obtain items where r: "r = PDict items" and c: "convert_items items [] = Inr c"
    by (cases r) simp_all
  from convert_items_lookup [OF c assms(3)] obtain v
    where v: "(k, v) \<in> set items" "convert_value k v = Inr w" by auto
  have "float_ok v" using assms(2) v(1) by (auto simp add: r list_all_iff)
  then show ?thesis using v(2) by blast
qed

lemma field_invalid_False:
  "field_invalid c fv = Inr False \<longleftrightarrow>
     (case map_of c (KStr (fst fv)) of Some v \<Rightarrow> snd fv v = Inr True | None \<Rightarrow> False)"
  by (cases fv) (auto simp add: field_invalid_def lookup_def split: option.splits sum.splits)

lemma invalid_fields_Nil:
  "invalid_fields c fvs = Inr [] \<longleftrightarrow>
     list_all (\<lambda>fv. case map_of c (KStr (fst fv)) of Some v \<Rightarrow> snd fv v = Inr True | None \<Rightarrow> False) fvs"
proof (induction fvs)
  case Nil
  then show ?case by simp
next
  case (Cons fv fvs)
  have "invalid_fields c (fv # fvs) = Inr [] \<longleftrightarrow>
          field_invalid c fv = Inr False \<and> invalid_fields c fvs = Inr []"
    by (auto simp add: bindE_Inr_iff split: if_splits)
  then show ?case using Cons.IH by (simp add: field_invalid_False)
qed

lemma missing_fields_Nil:
  "missing_fields c = [] \<longleftrightarrow> list_all (\<lambda>field. map_of c (KStr field) \<noteq> None) required_fields"
  by (simp add: missing_fields_def filter_empty_conv list_all_iff)

lemma record_passes_iff:
  "record_passes c \<longleftrightarrow> missing_fields c = [] \<and> invalid_fields c field_validations = Inr []"
  by (simp add: record_passes_def missing_fields_Nil invalid_fields_Nil)

lemma validate_record_cases:
  assumes "validate_record idx r st = Inr st'"
  shows "\<exists>c. convert_field_types r = Inr c \<and>
     ((record_passes c \<and> st' = st\<lparr>validated_data := validated_data st @ [c]\<rparr>)
      \<or> (\<not> record_passes c \<and> missing_fields c \<noteq> [] \<and>
           st' = st\<lparr>valid := False, errs := errs st @ [missing_error (missing_fields c) idx]\<rparr>)
      \<or> (\<not> record_passes c \<and> missing_fields c = [] \<and>
           (\<exists>inv. invalid_fields c field_validations = Inr inv \<and> inv \<noteq> [] \<and>
              st' = st\<lparr>valid := False, errs := errs st @ [invalid_error inv idx]\<rparr>)))"
proof -
  from assms obtain c where c: "convert_field_types r = Inr c"
    by (auto simp add: validate_record_def bindE_Inr_iff)
  show ?thesis
  proof (cases "missing_fields c = []")
    case False
    then show ?thesis using assms c by (auto simp add: validate_record_def record_passes_iff Let_def)
  next
    case True
    then obtain inv where inv: "invalid_fields c field_validations = Inr inv"
      using assms c by (auto simp add: validate_record_def bindE_Inr_iff Let_def)
    then show ?thesis using assms c True
      by (cases "inv = []") (auto simp add: validate_record_def record_passes_iff Let_def)
  qed
qed

lemma validate_loop_result:
  assumes "validate_loop idx rs st = Inr st'"
  shows "\<exists>cs. list_all2 (\<lambda>r c. convert_field_types r = Inr c) rs cs
           \<and> validated_data st' = validated_data st @ filter record_passes cs
           \<and> (valid st' \<longleftrightarrow> valid st \<and> list_all record_passes cs)
           \<and> (\<exists>new. errs st' = errs st @ new \<and> length new = length (filter (\<lambda>c. \<not> record_passes c) cs))"
  using assms
proof (induction rs arbitrary: idx st)
  case Nil
  then show ?case by simp
next
  case (Cons r rs)
  from Cons.prems obtain st1 where s1: "validate_record idx r st = Inr st1"
    and s2: "validate_loop (Suc idx) rs st1 = Inr st'"
    by (auto simp add: bindE_Inr_iff)
  from Cons.IH [OF s2] obtain cs new where cs:
    "list_all2 (\<lambda>r c. convert_field_types r = Inr c) rs cs"
    "validated_data st' = validated_data st1 @ filter record_passes cs"
    "valid st' \<longleftrightarrow> valid st1 \<and> list_all record_passes cs"
    "errs st' = errs st1 @ new" "length new = length (filter (\<lambda>c. \<not> record_passes c) cs)"
    by blast
  from validate_record_cases [OF s1] obtain c where c: "convert_field_types r = Inr c"
    and d: "(record_passes c \<and> st1 = st\<lparr>validated_data := validated_data st @ [c]\<rparr>)
      \<or> (\<not> record_passes c \<and> (\<exists>msg. st1 = st\<lparr>valid := False, errs := errs st @ [msg]\<rparr>))"
    by blast
  from d show ?case
  proof
    assume "record_passes c \<and> st1 = st\<lparr>validated_data := validated_data st @ [c]\<rparr>"
    then show ?thesis using c cs by (intro exI [of _ "c # cs"]) simp
  next
    assume "\<not> record_passes c \<and> (\<exists>msg. st1 = st\<lparr>valid := False, errs := errs st @ [msg]\<rparr>)"
    then show ?thesis using c cs by (intro exI [of _ "c # cs"]) auto
  qed
qed

section \<open>The Type Coercer\<close>

text \<open>
  Claim C5, at the input where the code departs from it. The claim says that a value
  which cannot be parsed as its required type is left unchanged and nothing is raised.
  The count \<open>inf\<close> parses as a float, the truncation to an integer raises
  \<open>OverflowError\<close>, the \<open>try\<close> block catches \<open>ValueError\<close> and \<open>TypeError\<close>
  only, and so the conversion of the record raises; likewise for an integer too large
  for a float in a float field. The fractional count \<open>nan\<close>, whose truncation raises
  \<open>ValueError\<close>, is left unchanged as the claim says.
\<close>

theorem convert_field_types_overflow:
  "convert_field_types (PDict [(KStr ''campaign_id'', PStr ''CAMP601''),
                               (KStr ''new_customers_acquired'', PStr ''inf'')])
     = Inl OverflowError
   \<and> convert_field_types (PDict [(KStr ''budget_usd'', PInt (10 ^ 400))]) = Inl OverflowError
   \<and> convert_field_types (PDict [(KStr ''new_customers_acquired'', PStr ''nan'')])
     = Inr [(KStr ''new_customers_acquired'', PStr ''nan'')]"
proof -
  have a: "float_of_string ''inf'' = Inr PosInf"
    by (simp add: float_of_string_def strip_with_def c_isspace_def blank_latin1_def
        is_digit_def split_sign_def parse_decimal_def to_lower_def)
  have b: "float_of_string ''nan'' = Inr NaN"
    by (simp add: float_of_string_def strip_with_def c_isspace_def blank_latin1_def
        is_digit_def split_sign_def parse_decimal_def to_lower_def)
  have "dbl_max < fl_abs (10 ^ 400)"
  proof -
    have "pow2 1024 \<le> fl_abs (10 ^ 400)"
      by (rule fl_abs_lower) (simp_all add: pow2_def)
    then show ?thesis by (simp add: pow2_def dbl_max_def)
  qed
  then have c: "float_of_int (10 ^ 400) = Inl OverflowError"
    by (simp add: float_of_int_def fl_def Let_def)
  show ?thesis
    using c
    by (simp add: a b convert_value_def count_fields_def field_validations_def bindE_def
        caught_def)
qed

section \<open>Numbers that are rounded to themselves\<close>

lemma fl_exact_pos:
  assumes m: "0 < m" "m < 2 ^ 53" and p: "- 1074 \<le> p" "p \<le> 971"
  shows "fl (of_int m * pow2 p) = Fin (of_int m * pow2 p)"
proof -
  define q where "q = of_int m * pow2 p"
  have q0: "0 < q" using m(1) pow2_pos [of p] by (simp add: q_def)
  define e where "e = floorlog2 q"
  define p' where "p' = max (e - 52) (- 1074)"
  have "pow2 e \<le> q" using floorlog2_bounds [OF q0] by (simp add: e_def)
  also have "q < of_int (2 ^ 53) * pow2 p"
    unfolding q_def using m(2) pow2_pos [of p] by (simp only: mult_less_cancel_right of_int_less_iff) simp
  also have "\<dots> = pow2 (p + 53)" using pow2_add [of p 53] by (simp add: pow2_def)
  finally have "e < p + 53" by (rule pow2_less_cancel)
  then have pp: "p' \<le> p" using p(1) by (simp add: p'_def)
  have "pow2 p = pow2 (p - p') * pow2 p'" using pow2_add [of "p - p'" p'] by simp
  then have "q / pow2 p' = of_int m * pow2 (p - p')"
    using pow2_pos [of p'] by (simp add: q_def)
  also have "\<dots> = of_int (m * 2 ^ nat (p - p'))" using pp by (simp add: pow2_def)
  finally have "rhe (q / pow2 p') = m * 2 ^ nat (p - p')" by (simp only: rhe_of_int)
  then have "of_int (rhe (q / pow2 p')) * pow2 p' = of_int m * (pow2 (p - p') * pow2 p')"
    using pp by (simp add: pow2_def)
  also have "\<dots> = q" using pow2_add [of "p - p'" p'] by (simp add: q_def)
  finally have r: "fl_abs q = q" by (simp add: fl_abs_def e_def [symmetric] p'_def [symmetric] Let_def)
  have "q \<le> of_int (2 ^ 53 - 1) * pow2 p"
    unfolding q_def using m(2) pow2_pos [of p] by (simp only: mult_le_cancel_right of_int_le_iff) simp
  also have "\<dots> \<le> of_int (2 ^ 53 - 1) * pow2 971"
    using pow2_mono [OF p(2)] by (simp only: mult_le_cancel_left of_int_less_iff) simp
  also have "\<dots> = dbl_max" by (simp add: pow2_def dbl_max_def)
  finally have "q \<le> dbl_max" .
  then show ?thesis using q0 r by (simp add: fl_def Let_def q_def [symmetric])
qed

lemma fl_of_int:
  assumes "\<bar>n\<bar> < 2 ^ 53"
  shows "fl (of_int n) = Fin (of_int n)"
proof -
  consider "n = 0" | "0 < n" | "n < 0" by linarith
  then show ?thesis
  proof cases
    case 1 then show ?thesis by (simp add: fl_def)
  next
    case 2
    then show ?thesis using assms fl_exact_pos [of n 0] by (simp add: pow2_def)
  next
    case 3
    then have "fl (of_int (- n)) = Fin (of_int (- n))"
      using assms fl_exact_pos [of "- n" 0] by (simp add: pow2_def)
    then show ?thesis using fl_negI [of "of_int (- n)" "of_int (- n)"] by simp
  qed
qed

lemma fl_numeral [simp]: "\<bar>numeral k\<bar> < (2::int) ^ 53 \<Longrightarrow> fl (numeral k) = Fin (numeral k)"
  using fl_of_int [of "numeral k"] by simp

lemma fl_zero [simp]: "fl 0 = Fin 0"
  by (simp add: fl_def)

lemma fl_one [simp]: "fl 1 = Fin 1"
  using fl_of_int [of 1] by simp

section \<open>The batch as a whole\<close>

declare digits_of.simps [simp del]

lemmas eval_defs =
  validate_data_def validate_record_def convert_value_def count_fields_def
  field_validations_def required_fields_def missing_fields_def missing_error_def
  invalid_error_def field_invalid_def lookup_def float_of_int_def trunc_def caught_def
  positive_def positive_int_def in_closed_range_def py_and_def py_gt_def py_lt_def py_le_def
  Let_def

lemma validate_data_list:
  assumes "validate_data (PList rs) = Inr res" and "rs \<noteq> []"
  shows "\<exists>st n m. validate_loop 0 rs \<lparr>valid = True, errs = [], validated_data = []\<rparr> = Inr st
           \<and> res = \<lparr>is_valid = valid st, errors = map PStr (errs st),
                     report = report_text n m (valid st) (errs st), data = validated_data st\<rparr>"
  using assms by (auto simp add: validate_data_def bindE_Inr_iff)

text \<open>
  Claim C2. For a non-empty batch on which the Validator returns a result: the flag
  \<open>is_valid\<close> holds exactly when every converted record passes the missing-field check
  and all domain predicates; the records that pass are collected, in order, whether or not
  the batch is valid; and on an invalid batch \<open>process_data\<close> returns the validation
  report alone, without any analysis.
\<close>

theorem batch_validity:
  assumes "validate_data (PList rs) = Inr res" and "rs \<noteq> []"
  shows "\<exists>cs. list_all2 (\<lambda>r c. convert_field_types r = Inr c) rs cs
           \<and> (is_valid res \<longleftrightarrow> list_all record_passes cs)
           \<and> data res = filter record_passes cs
           \<and> (\<not> is_valid res \<longrightarrow>
                (\<forall>json_loads csv_DictReader th s.
                   parse_data json_loads csv_DictReader s = PList rs \<longrightarrow>
                   process_data json_loads csv_DictReader th s = Inr (ValidationReport (report res))))"
proof -
  from validate_data_list [OF assms] obtain st n m where
    st: "validate_loop 0 rs \<lparr>valid = True, errs = [], validated_data = []\<rparr> = Inr st"
    and res: "res = \<lparr>is_valid = valid st, errors = map PStr (errs st),
                     report = report_text n m (valid st) (errs st), data = validated_data st\<rparr>"
    by blast
  from validate_loop_result [OF st] obtain cs where cs:
    "list_all2 (\<lambda>r c. convert_field_types r = Inr c) rs cs"
    "validated_data st = filter record_passes cs"
    "valid st \<longleftrightarrow> list_all record_passes cs"
    by auto
  have "process_data j c th s = Inr (ValidationReport (report res))"
    if "\<not> is_valid res" "parse_data j c s = PList rs" for j c th s
    using that assms(1) by (simp add: process_data_def)
  then show ?thesis using cs res by auto
qed

text \<open>The same at a batch of one valid record and one record without \<open>revenue_generated\<close>.\<close>

theorem batch_validity_witness:
  "\<exists>res cs. validate_data (PList [PDict good_record, PDict scenario_B]) = Inr res
     \<and> [PDict good_record, PDict scenario_B] \<noteq> []
     \<and> list_all2 (\<lambda>r c. convert_field_types r = Inr c) [PDict good_record, PDict scenario_B] cs
     \<and> (is_valid res \<longleftrightarrow> list_all record_passes cs)
     \<and> data res = filter record_passes cs
     \<and> \<not> is_valid res
     \<and> parse_data json_records (\<lambda>s. None) text_batch = PList [PDict good_record, PDict scenario_B]
     \<and> process_data json_records (\<lambda>s. None) thresholds text_batch
          = Inr (ValidationReport (report res))"
proof -
  have "\<exists>res. validate_data (PList [PDict good_record, PDict scenario_B]) = Inr res \<and> \<not> is_valid res"
    by (simp add: good_record_def scenario_B_def eval_defs)
  then obtain res where r: "validate_data (PList [PDict good_record, PDict scenario_B]) = Inr res"
    and nv: "\<not> is_valid res" by blast
  have p: "parse_data json_records (\<lambda>s. None) text_batch
       = PList [PDict good_record, PDict scenario_B]"
    by (simp add: parse_data_def py_strip_def strip_with_def py_isspace_def json_records_def
        text_batch_def text_good_def)
  from batch_validity [OF r] nv p r show ?thesis by blast
qed

section \<open>Missing fields\<close>

lemma validate_loop_errs_mono:
  assumes "validate_loop idx rs st = Inr st'"
  shows "set (errs st) \<subseteq> set (errs st')"
  using validate_loop_result [OF assms] by auto

lemma validate_loop_missing:
  assumes "validate_loop idx rs st = Inr st'" and "i < length rs"
    and "convert_field_types (rs ! i) = Inr c" and "missing_fields c \<noteq> []"
  shows "missing_error (missing_fields c) (idx + i) \<in> set (errs st')"
  using assms
proof (induction rs arbitrary: idx st i)
  case Nil
  then show ?case by simp
next
  case (Cons r rs)
  from Cons.prems(1) obtain st1 where s1: "validate_record idx r st = Inr st1"
    and s2: "validate_loop (Suc idx) rs st1 = Inr st'"
    by (auto simp add: bindE_Inr_iff)
  show ?case
  proof (cases i)
    case 0
    then have "convert_field_types r = Inr c" using Cons.prems(3) by simp
    then have "st1 = st\<lparr>valid := False, errs := errs st @ [missing_error (missing_fields c) idx]\<rparr>"
      using s1 Cons.prems(4) by (simp add: validate_record_def Let_def)
    then have "missing_error (missing_fields c) idx \<in> set (errs st1)" by simp
    then show ?thesis using validate_loop_errs_mono [OF s2] 0 by auto
  next
    case (Suc j)
    then have "missing_error (missing_fields c) (Suc idx + j) \<in> set (errs st')"
      using Cons.prems by (intro Cons.IH [OF s2]) simp_all
    then show ?thesis using Suc by simp
  qed
qed

text \<open>
  Claim C7, as the code has it. A record without one of the required fields gets exactly
  one error, which starts with \<open>ERROR: \<close> and lists the absent fields joined by a
  comma and a blank, with the 1-based row number; the batch is invalid; nothing else is
  checked for this record and it is not collected. The last conjunct is the step of the
  loop on that record, from any state.
\<close>

theorem missing_field_error:
  assumes "validate_data (PList rs) = Inr res" and "i < length rs"
    and "convert_field_types (rs ! i) = Inr c" and "missing_fields c \<noteq> []"
  shows "PStr (''ERROR: Missing required field(s): '' @ join '', '' (missing_fields c)
               @ '' in row '' @ digits_of (i + 1) @ ''.'') \<in> set (errors res)
         \<and> \<not> is_valid res
         \<and> c \<notin> set (data res)
         \<and> validate_record i (rs ! i) st =
             Inr (st\<lparr>valid := False,
                     errs := errs st @ [''ERROR: Missing required field(s): ''
                       @ join '', '' (missing_fields c) @ '' in row '' @ digits_of (i + 1) @ ''.'']\<rparr>)"
proof -
  have ne: "rs \<noteq> []" using assms(2) by auto
  from validate_data_list [OF assms(1) ne] obtain st0 n m where
    st: "validate_loop 0 rs \<lparr>valid = True, errs = [], validated_data = []\<rparr> = Inr st0"
    and res: "res = \<lparr>is_valid = valid st0, errors = map PStr (errs st0),
                     report = report_text n m (valid st0) (errs st0), data = validated_data st0\<rparr>"
    by blast
  have 1: "missing_error (missing_fields c) i \<in> set (errs st0)"
    using validate_loop_missing [OF st assms(2,3,4)] by simp
  from validate_loop_result [OF st] obtain cs where cs:
    "list_all2 (\<lambda>r c. convert_field_types r = Inr c) rs cs"
    "validated_data st0 = filter record_passes cs"
    "valid st0 \<longleftrightarrow> list_all record_passes cs"
    by auto
  have np: "\<not> record_passes c" using assms(4) by (simp add: record_passes_iff)
  have "cs ! i = c" using cs(1) assms(2,3) by (auto simp add: list_all2_conv_all_nth)
  moreover have "i < length cs" using cs(1) assms(2) by (simp add: list_all2_lengthD)
  ultimately have "c \<in> set cs" by (metis nth_mem)
  then have 2: "\<not> valid st0" using np cs(3) by (auto simp add: list_all_iff)
  have 3: "c \<notin> set (validated_data st0)" using np cs(2) by simp
  have 4: "validate_record i (rs ! i) st =
             Inr (st\<lparr>valid := False, errs := errs st @ [missing_error (missing_fields c) i]\<rparr>)"
    using assms(3,4) by (simp add: validate_record_def Let_def)
  show ?thesis using 1 2 3 4 by (simp add: res missing_error_def image_iff) 
qed


text \<open>The same at the one-record batch whose record lacks \<open>revenue_generated\<close>.\<close>

theorem missing_field_error_witness:
  "\<exists>res c. validate_data (PList [PDict scenario_B]) = Inr res
     \<and> 0 < length [PDict scenario_B]
     \<and> convert_field_types ([PDict scenario_B] ! 0) = Inr c
     \<and> missing_fields c = [''revenue_generated'']
     \<and> PStr ''ERROR: Missing required field(s): revenue_generated in row 1.'' \<in> set (errors res)
     \<and> \<not> is_valid res \<and> c \<notin> set (data res)"
proof -
  have "\<exists>c. convert_field_types (PDict scenario_B) = Inr c \<and> missing_fields c = [''revenue_generated'']"
    by (simp add: scenario_B_def eval_defs)
  then obtain c where c: "convert_field_types ([PDict scenario_B] ! 0) = Inr c"
    and m: "missing_fields c = [''revenue_generated'']" by auto
  have "\<exists>res. validate_data (PList [PDict scenario_B]) = Inr res"
    by (simp add: scenario_B_def eval_defs)
  then obtain res where r: "validate_data (PList [PDict scenario_B]) = Inr res" by blast
  have l: "0 < length [PDict scenario_B]" by simp
  have m': "missing_fields c \<noteq> []" using m by simp
  from missing_field_error [OF r l c m'] r c m show ?thesis
    by (auto simp add: digits_of.simps digit_char_def)
qed

text \<open>
  The claim as stated gives the error without its prefix. On the record that lacks only
  \<open>revenue_generated\<close> the single error recorded is the prefixed one.
\<close>

theorem missing_field_error_counterexample:
  "errors_of (validate_data (PList [PDict scenario_B]))
     = [PStr ''ERROR: Missing required field(s): revenue_generated in row 1.'']
   \<and> PStr ''Missing required field(s): revenue_generated in row 1.''
       \<notin> set (errors_of (validate_data (PList [PDict scenario_B])))"
  by (simp add: scenario_B_def eval_defs errors_of_def digits_of.simps digit_char_def)

section \<open>The Parser on JSON\<close>

lemmas strip_defs = py_strip_def strip_with_def py_isspace_def

text \<open>
  Claim C6, as the code has it. For a text whose stripped form starts with a brace: when
  the decoded object has a key \<open>campaigns\<close>, the value under that key is returned, whatever
  it is (so an array gives its elements as the records); when it has no such key, the
  object is the only record; and when the decoder fails, the result is the error dictionary,
  for which the Validator reports exactly one error, of the batch, and collects nothing.
\<close>

theorem parse_json:
  assumes "py_strip s = CHR ''{'' # rest"
  shows "(\<forall>obj v. json_loads (py_strip s) = Some obj \<longrightarrow> map_of obj (KStr ''campaigns'') = Some v
            \<longrightarrow> parse_data json_loads csv_DictReader s = v)
       \<and> (\<forall>obj. json_loads (py_strip s) = Some obj \<longrightarrow> map_of obj (KStr ''campaigns'') = None
            \<longrightarrow> parse_data json_loads csv_DictReader s = PList [PDict obj])
       \<and> (json_loads (py_strip s) = None
            \<longrightarrow> parse_data json_loads csv_DictReader s = format_error
              \<and> validate_data (parse_data json_loads csv_DictReader s) =
                  Inr \<lparr>is_valid = False,
                       errors = [PStr ''ERROR: Invalid data format. Please provide data in CSV or JSON format.''],
                       report = [], data = []\<rparr>)"
  using assms by (simp add: parse_data_def validate_data_def format_error_def)

text \<open>The three cases at three texts.\<close>

theorem parse_json_witness:
  "py_strip (''  '' @ text_campaigns_list) = CHR ''{'' # tl text_campaigns_list
   \<and> json_example (py_strip (''  '' @ text_campaigns_list))
       = Some [(KStr ''campaigns'', PList [PDict [(KStr ''campaign_id'', PStr ''CAMP601'')]])]
   \<and> parse_data json_example (\<lambda>s. None) (''  '' @ text_campaigns_list)
       = PList [PDict [(KStr ''campaign_id'', PStr ''CAMP601'')]]
   \<and> py_strip text_single = CHR ''{'' # tl text_single
   \<and> json_example (py_strip text_single) = Some [(KStr ''campaign_id'', PStr ''CAMP601'')]
   \<and> parse_data json_example (\<lambda>s. None) text_single
       = PList [PDict [(KStr ''campaign_id'', PStr ''CAMP601'')]]
   \<and> py_strip ''{'' = CHR ''{'' # []
   \<and> json_example (py_strip ''{'') = None
   \<and> validate_data (parse_data json_example (\<lambda>s. None) ''{'') =
        Inr \<lparr>is_valid = False,
             errors = [PStr ''ERROR: Invalid data format. Please provide data in CSV or JSON format.''],
             report = [], data = []\<rparr>"
proof -
  have a: "py_strip (''  '' @ text_campaigns_list) = CHR ''{'' # tl text_campaigns_list"
    by (simp add: strip_defs text_campaigns_list_def)
  have b: "py_strip text_single = CHR ''{'' # tl text_single"
    by (simp add: strip_defs text_single_def)
  have c: "py_strip ''{'' = CHR ''{'' # []"
    by (simp add: strip_defs)
  have j1: "json_example (py_strip (''  '' @ text_campaigns_list))
       = Some [(KStr ''campaigns'', PList [PDict [(KStr ''campaign_id'', PStr ''CAMP601'')]])]"
    by (simp add: strip_defs json_example_def text_campaigns_list_def text_campaigns_5_def)
  have j2: "json_example (py_strip text_single) = Some [(KStr ''campaign_id'', PStr ''CAMP601'')]"
    by (simp add: strip_defs json_example_def text_campaigns_list_def text_campaigns_5_def text_single_def)
  have j3: "json_example (py_strip ''{'') = None"
    by (simp add: strip_defs json_example_def text_campaigns_list_def text_campaigns_5_def text_single_def)
  have p1: "parse_data json_example (\<lambda>s. None) (''  '' @ text_campaigns_list)
       = PList [PDict [(KStr ''campaign_id'', PStr ''CAMP601'')]]"
    using parse_json [OF a, of json_example "\<lambda>s. None"] j1 by simp
  have p2: "parse_data json_example (\<lambda>s. None) text_single
       = PList [PDict [(KStr ''campaign_id'', PStr ''CAMP601'')]]"
    using parse_json [OF b, of json_example "\<lambda>s. None"] j2 by simp
  have p3: "validate_data (parse_data json_example (\<lambda>s. None) ''{'') =
        Inr \<lparr>is_valid = False,
             errors = [PStr ''ERROR: Invalid data format. Please provide data in CSV or JSON format.''],
             report = [], data = []\<rparr>"
    using parse_json [OF c, of json_example "\<lambda>s. None"] j3 by blast
  show ?thesis by (intro conjI a j1 p1 b j2 p2 c j3 p3)
qed

text \<open>
  The claim as stated makes the object the only record whenever \<open>campaigns\<close> is not an
  array. The code tests the presence of the key only: for \<open>campaigns\<close> equal to 5 the
  batch is the number 5, on which the Validator raises.
\<close>

theorem parse_json_counterexample:
  "parse_data json_example (\<lambda>s. None) text_campaigns_5 = PInt 5
   \<and> parse_data json_example (\<lambda>s. None) text_campaigns_5 \<noteq> PList [PDict [(KStr ''campaigns'', PInt 5)]]
   \<and> validate_data (parse_data json_example (\<lambda>s. None) text_campaigns_5) = Inl TypeError"
  by (simp add: parse_data_def strip_defs json_example_def text_campaigns_5_def validate_data_def)

section \<open>Counts\<close>

lemmas float_of_string_defs =
  float_of_string_def strip_with_def c_isspace_def blank_latin1_def is_digit_def split_sign_def
  parse_decimal_def parse_exponent_def to_lower_def nat_of_digits_def digit_val_def pow10_def

lemma fl_307_10: "fl (307 / 10) = Fin (8641281785017139 / 281474976710656)"
  by (rule fl_posI [where e = "4" and p = "-48" and m = 8641281785017139])
     (simp_all add: pow2_def dbl_max_def)

lemma float_30_7: "float_of_string ''30.7'' = Inr (Fin (8641281785017139 / 281474976710656))"
  by (simp add: float_of_string_defs fl_307_10)

lemma trunc_eqI: "0 \<le> q \<Longrightarrow> of_int z \<le> q \<Longrightarrow> q < of_int z + 1 \<Longrightarrow> trunc q = z"
  by (simp add: trunc_def floor_unique)

lemma trunc_30_7: "trunc (8641281785017139 / 281474976710656) = 30"
  by (rule trunc_eqI) simp_all

text \<open>
  Claim C10. On the value the Type Coercer leaves in a count field, the predicate of the
  field is the test of positivity alone: the test of integrality never decides. Whenever
  the raw value parses as a finite number the coerced value is the integer it truncates
  to; and the predicate raises only on a raw value that is not a number, with
  \<open>TypeError\<close>, which the Validator catches.
\<close>

theorem count_integrality:
  assumes "k \<in> set count_fields" and "convert_value (KStr k) v = Inr c"
  shows "positive_int c = py_gt c (PInt 0)
       \<and> (\<forall>q. py_float v = Inr (Fin q) \<longrightarrow> c = PInt (trunc q))
       \<and> (\<forall>e. positive_int c = Inl e \<longrightarrow> e = TypeError \<and> caught e \<and> num_of c = None \<and> c = v)"
proof -
  from convert_count_shape [OF assms] have shape:
    "(\<exists>q. py_float v = Inr (Fin q) \<and> c = PInt (trunc q))
       \<or> (c = v \<and> (num_of v = None \<or> v = PFloat NaN) \<and> (\<forall>q. py_float v \<noteq> Inr (Fin q)))" .
  then have i: "isinstance_int c \<or> num_of c = None \<or> c = PFloat NaN" by auto
  have 1: "positive_int c = py_gt c (PInt 0)"
    using positive_int_eq_positive [OF i] by (simp add: positive_def)
  have 2: "\<forall>q. py_float v = Inr (Fin q) \<longrightarrow> c = PInt (trunc q)" using shape by auto
  have 3: "e = TypeError \<and> caught e \<and> num_of c = None \<and> c = v" if "positive_int c = Inl e" for e
  proof -
    have n: "num_of c = None" "e = TypeError"
      using that 1 by (cases "num_of c"; simp add: py_gt_def py_lt_def)+
    then have "c = v" using shape by auto
    then show ?thesis using n by (simp add: caught_def)
  qed
  show ?thesis using 1 2 3 by blast
qed

text \<open>
  At the count \<open>30.7\<close>, which is truncated to 30 and admitted, and at the count
  \<open>abc\<close>, which is left as it is and on which the predicate raises.
\<close>

theorem count_integrality_witness:
  "''new_customers_acquired'' \<in> set count_fields
   \<and> convert_value (KStr ''new_customers_acquired'') (PStr ''30.7'') = Inr (PInt 30)
   \<and> py_float (PStr ''30.7'') = Inr (Fin (8641281785017139 / 281474976710656))
   \<and> trunc (8641281785017139 / 281474976710656) = 30
   \<and> positive_int (PInt 30) = py_gt (PInt 30) (PInt 0)
   \<and> positive_int (PInt 30) = Inr True
   \<and> convert_value (KStr ''customers_end'') (PStr ''abc'') = Inr (PStr ''abc'')
   \<and> positive_int (PStr ''abc'') = Inl TypeError \<and> caught TypeError"
proof -
  have k: "''new_customers_acquired'' \<in> set count_fields" "''customers_end'' \<in> set count_fields"
    by (simp_all add: count_fields_def)
  have c: "convert_value (KStr ''new_customers_acquired'') (PStr ''30.7'') = Inr (PInt 30)"
    by (simp add: convert_value_def count_fields_def float_30_7 trunc_30_7)
  have d: "convert_value (KStr ''customers_end'') (PStr ''abc'') = Inr (PStr ''abc'')"
    by (simp add: convert_value_def count_fields_def float_of_string_defs caught_def)
  have e: "positive_int (PStr ''abc'') = Inl TypeError"
    by (simp add: positive_int_def py_and_def py_gt_def py_lt_def)
  show ?thesis
    using count_integrality [OF k(1) c] count_integrality [OF k(2) d] k c d e
    by (simp add: float_30_7 trunc_30_7 py_gt_def py_lt_def)
qed

section \<open>Evaluating the analysis\<close>

lemma rhe_tieI:
  assumes "q = of_int f + 1 / 2" "m = (if even f then f else f + 1)"
  shows "rhe q = m"
proof -
  have "\<lfloor>q\<rfloor> = f" unfolding assms(1) by (rule floor_unique) simp_all
  then show ?thesis using assms by (simp add: rhe_def Let_def)
qed

lemma rhe_numeral [simp]: "rhe (numeral k) = numeral k"
  using rhe_of_int [of "numeral k"] by simp

lemma rhe_zero [simp]: "rhe 0 = 0"
  using rhe_of_int [of 0] by simp

lemma fl_posR:
  assumes "pow2 e \<le> q" "q < pow2 (e + 1)" "max (e - 52) (- 1074) = p"
    and "rhe (q / pow2 p) = m" and "of_int m * pow2 p = r" "r \<le> dbl_max"
  shows "fl q = Fin r"
proof -
  have q: "0 < q" using assms(1) pow2_pos [of e] by simp
  have e: "floorlog2 q = e" using assms(1,2) by (rule floorlog2_eqI)
  have "fl_abs q = r" using assms(3,4,5) by (simp add: fl_abs_def e Let_def)
  then show ?thesis using q assms(6) by (simp add: fl_def Let_def)
qed

subsection \<open>The roundings of scenario A\<close>

lemma sA_fl_1: "fl (140 / 3) = Fin (6567749456581973 / 140737488355328)"
  by (rule fl_posI [where e = "5" and p = "-47" and m = 6567749456581973])
     (simp_all add: pow2_def dbl_max_def)

lemma sA_rhe_1: "rhe (164193736414549325 / 35184372088832) = 4667"
  by (rule rhe_eqI) simp_all

lemma sA_fl_2: "fl (4667 / 100) = Fin (3284109290771579 / 70368744177664)"
  by (rule fl_posI [where e = "5" and p = "-47" and m = 6568218581543158])
     (simp_all add: pow2_def dbl_max_def)

lemma sA_fl_3: "fl (1 / 2) = Fin (1 / 2)"
  by (rule fl_posI [where e = "-1" and p = "-53" and m = 4503599627370496])
     (simp_all add: pow2_def dbl_max_def)

lemma sA_fl_4: "fl (3 / 10) = Fin (5404319552844595 / 18014398509481984)"
  by (rule fl_posI [where e = "-2" and p = "-54" and m = 5404319552844595])
     (simp_all add: pow2_def dbl_max_def)

lemma sA_fl_5: "fl (135107988821114875 / 18014398509481984) = Fin (15 / 2)"
  by (rule fl_posI [where e = "2" and p = "-50" and m = 8444249301319680])
     (simp_all add: pow2_def dbl_max_def)

lemma sA_fl_6: "fl (15 / 2) = Fin (15 / 2)"
  by (rule fl_posI [where e = "2" and p = "-50" and m = 8444249301319680])
     (simp_all add: pow2_def dbl_max_def)

lemma sA_fl_7: "fl (1 / 5) = Fin (3602879701896397 / 18014398509481984)"
  by (rule fl_posI [where e = "-3" and p = "-55" and m = 7205759403792794])
     (simp_all add: pow2_def dbl_max_def)

lemma sA_fl_8: "fl (126100789566373895 / 9007199254740992) = Fin 14"
  by (rule fl_posI [where e = "3" and p = "-49" and m = 7881299347898368])
     (simp_all add: pow2_def dbl_max_def)

lemma sA_fl_9: "fl (1 / 20) = Fin (3602879701896397 / 72057594037927936)"
  by (rule fl_posI [where e = "-5" and p = "-57" and m = 7205759403792794])
     (simp_all add: pow2_def dbl_max_def)

lemma sA_fl_10: "fl (11832250702530294322737650100863 / 5070602400912917605986812821504) = Fin (5254574865234527 / 2251799813685248)"
  by (rule fl_posI [where e = "1" and p = "-51" and m = 5254574865234527])
     (simp_all add: pow2_def dbl_max_def)

lemma sA_rhe_2: "rhe (131364371630863175 / 562949953421312) = 233"
  by (rule rhe_eqI) simp_all

lemma sA_fl_11: "fl (233 / 100) = Fin (1311673391471657 / 562949953421312)"
  by (rule fl_posI [where e = "1" and p = "-51" and m = 5246693565886628])
     (simp_all add: pow2_def dbl_max_def)

lemma sA_fl_12: "fl (1 / 10) = Fin (3602879701896397 / 36028797018963968)"
  by (rule fl_posI [where e = "-4" and p = "-56" and m = 7205759403792794])
     (simp_all add: pow2_def dbl_max_def)

lemma sA_fl_13: "fl (90071992547409925 / 9007199254740992) = Fin 10"
  by (rule fl_posI [where e = "3" and p = "-49" and m = 5629499534213120])
     (simp_all add: pow2_def dbl_max_def)

lemma sA_fl_14_tie: "rhe (10808639105689191 / 2) = 5404319552844596"
  by (rule rhe_tieI [where f = 5404319552844595]) simp_all

lemma sA_fl_14: "fl (10808639105689191 / 18014398509481984) = Fin (1351079888211149 / 2251799813685248)"
  by (rule fl_posR [where e = "-1" and p = "-53" and m = 5404319552844596])
     (simp_all add: pow2_def dbl_max_def sA_fl_14_tie)

lemma sA_rhe_3: "rhe (33776997205278725 / 562949953421312) = 60"
  by (rule rhe_eqI) simp_all

lemma sA_fl_15: "fl (3 / 5) = Fin (5404319552844595 / 9007199254740992)"
  by (rule fl_posI [where e = "-1" and p = "-53" and m = 5404319552844595])
     (simp_all add: pow2_def dbl_max_def)

lemma sA_fl_16: "fl (95 / 2) = Fin (95 / 2)"
  by (rule fl_posI [where e = "5" and p = "-47" and m = 6685030696878080])
     (simp_all add: pow2_def dbl_max_def)

lemma sA_fl_17: "fl (123 / 2) = Fin (123 / 2)"
  by (rule fl_posI [where e = "5" and p = "-47" and m = 8655355533852672])
     (simp_all add: pow2_def dbl_max_def)

lemma sA_fl_18: "fl (33309748743939031 / 562949953421312) = Fin (4163718592992379 / 70368744177664)"
  by (rule fl_posI [where e = "5" and p = "-47" and m = 8327437185984758])
     (simp_all add: pow2_def dbl_max_def)

lemma sA_fl_19: "fl (4867406034769019 / 70368744177664) = Fin (4867406034769019 / 70368744177664)"
  by (rule fl_posI [where e = "6" and p = "-46" and m = 4867406034769019])
     (simp_all add: pow2_def dbl_max_def)

lemma sA_fl_20: "fl (628432292003279027 / 9007199254740992) = Fin (4909627281275617 / 70368744177664)"
  by (rule fl_posI [where e = "6" and p = "-46" and m = 4909627281275617])
     (simp_all add: pow2_def dbl_max_def)

lemma sA_rhe_4: "rhe (122740682031890425 / 17592186044416) = 6977"
  by (rule rhe_eqI) simp_all

lemma sA_fl_21: "fl (6977 / 100) = Fin (4909627281275617 / 70368744177664)"
  by (rule fl_posI [where e = "6" and p = "-46" and m = 4909627281275617])
     (simp_all add: pow2_def dbl_max_def)

lemma sA_fl_22: "fl (4909627281275617 / 105553116266496000) = Fin (6703277781368309 / 144115188075855872)"
  by (rule fl_posI [where e = "-5" and p = "-57" and m = 6703277781368309])
     (simp_all add: pow2_def dbl_max_def)

lemma sA_rhe_5: "rhe (167581944534207725 / 36028797018963968) = 5"
  by (rule rhe_eqI) simp_all

lemmas sA_certs = sA_fl_1 sA_rhe_1 sA_fl_2 sA_fl_3 sA_fl_4 sA_fl_5 sA_fl_6 sA_fl_7 sA_fl_8 sA_fl_9 sA_fl_10 sA_rhe_2 sA_fl_11 sA_fl_12 sA_fl_13 sA_fl_14 sA_rhe_3 sA_fl_15 sA_fl_16 sA_fl_17 sA_fl_18 sA_fl_19 sA_fl_20 sA_rhe_4 sA_fl_21 sA_fl_22 sA_rhe_5

subsection \<open>Scenario A\<close>

lemmas op_defs =
  py_truediv_def py_mul_def py_add_def py_sub_def float_op_def f_sub_def float_of_int_def
  py_gt_def py_ge_def py_le_def py_lt_def py_and_def lit_def

lemma analysis_A:
  "analyze_campaign thresholds converted_A =
     Inr \<lparr>campaign_id = PStr ''CAMP601'', cac = lit (4667 / 100), retention_rate = lit 100,
          roas = lit 6, composite_score = lit (6977 / 100), cost_efficiency = lit (5 / 100),
          budget_recommendation = ''Recommend a reassessment of the campaign budget.'',
          meets_thresholds = True, status = ''Optimal'',
          action = ''Maintain or scale up the campaign.''\<rparr>"
  by (simp add: analyze_campaign_def converted_A_def thresholds_def lookup_def op_defs sA_certs)

lemma pA_fl_1: "fl (1 / 4) = Fin (1 / 4)"
  by (rule fl_posI [where e = "-2" and p = "-54" and m = 4503599627370496])
     (simp_all add: pow2_def dbl_max_def)


lemma validate_A:
  "\<exists>rep. validate_data (PList [PDict scenario_A]) =
      Inr \<lparr>is_valid = True, errors = [], report = rep, data = [converted_A]\<rparr>"
  by (simp add: scenario_A_def converted_A_def eval_defs float_of_string_defs pA_fl_1)

lemma parse_A: "parse_data json_example csv_example text_A = PList [PDict scenario_A]"
  by (simp add: parse_data_def strip_defs csv_example_def text_A_def nl_def)

text \<open>
  Claim C3. On the CSV text of scenario A (the header and the row of CAMP601), for a
  reader that yields the row as its dictionary of cells, the pipeline validates the
  record and analyses it: the acquisition cost is the float 46.67, the retention rate
  100.0, the return on advertising spend 6.0, the composite score, computed from the six
  rounded terms 40.0, 7.5, 14.0, 2.33, 10.0 and 0.6, is 69.77, all four thresholds are
  met and the status is Optimal.
\<close>

theorem scenario_A_analysis:
  "\<exists>rep a. process_data json_example csv_example thresholds text_A = Inr (FullReport rep [a])
     \<and> validate_data (parse_data json_example csv_example text_A) =
          Inr \<lparr>is_valid = True, errors = [], report = rep, data = [converted_A]\<rparr>
     \<and> analyze_campaign thresholds converted_A = Inr a
     \<and> cac a = lit (4667 / 100) \<and> retention_rate a = lit 100 \<and> roas a = lit 6
     \<and> composite_score a = lit (6977 / 100)
     \<and> meets_thresholds a \<and> status a = ''Optimal''"
proof -
  from validate_A obtain rep where
    v: "validate_data (PList [PDict scenario_A]) =
      Inr \<lparr>is_valid = True, errors = [], report = rep, data = [converted_A]\<rparr>" by blast
  show ?thesis
    by (rule exI [of _ rep]) (simp add: process_data_def parse_A v analysis_A)
qed

section \<open>The thresholds\<close>

lemma py_and_True: "py_and x y = Inr True \<longleftrightarrow> x = Inr True \<and> y = Inr True"
  by (cases x) (auto simp add: py_and_def)

lemma bindE_InrE:
  assumes "bindE m f = Inr y"
  obtains x where "m = Inr x" "f x = Inr y"
  using assms by (auto simp add: bindE_Inr_iff)

lemma analyze_campaign_decisions:
  assumes "analyze_campaign th c = Inr a"
  shows "(\<exists>b. py_gt (cost_efficiency a) (lit (5 / 100)) = Inr b
            \<and> budget_recommendation a =
                (if b then ''The campaign is considered cost-effective.''
                 else ''Recommend a reassessment of the campaign budget.''))
       \<and> py_and (bindE (lookup th ''composite_score'') (py_ge (composite_score a)))
             (py_and (bindE (lookup th ''cac'') (py_le (cac a)))
               (py_and (bindE (lookup th ''retention_rate'') (py_ge (retention_rate a)))
                       (bindE (lookup th ''roas'') (py_ge (roas a))))) = Inr (meets_thresholds a)
       \<and> status a = (if meets_thresholds a then ''Optimal'' else ''Needs Improvement'')"
  using assms unfolding analyze_campaign_def
  apply (elim bindE_InrE)
  apply (drule sym [of "Inr _" "Inr a"])
  apply (simp only: sum.inject)
  apply simp
  done

lemma lookup_update_other:
  "k \<noteq> k' \<Longrightarrow> lookup (AList.update (KStr k) v th) k' = lookup th k'"
  by (simp add: lookup_def update_conv')

lemma analyze_campaign_other_key:
  assumes "k \<notin> set [''composite_score'', ''cac'', ''retention_rate'', ''roas'']"
  shows "analyze_campaign (AList.update (KStr k) v th) c = analyze_campaign th c"
  using assms unfolding analyze_campaign_def by (simp add: lookup_update_other)

text \<open>
  Claim C8, as the code has it. Whenever the analysis of a campaign returns, for any table
  of thresholds: the four thresholds of the table decide \<open>meets_thresholds\<close>, each
  compared with its metric; the budget recommendation compares the cost efficiency with the
  literal 0.05 of the source, not with the table; and an entry of the table under any other
  key, such as a minimum of the cost efficiency, changes nothing in the analysis.
\<close>

theorem thresholds_configurable:
  assumes "analyze_campaign th c = Inr a"
  shows "(meets_thresholds a \<longleftrightarrow>
            bindE (lookup th ''composite_score'') (py_ge (composite_score a)) = Inr True
          \<and> bindE (lookup th ''cac'') (py_le (cac a)) = Inr True
          \<and> bindE (lookup th ''retention_rate'') (py_ge (retention_rate a)) = Inr True
          \<and> bindE (lookup th ''roas'') (py_ge (roas a)) = Inr True)
       \<and> (budget_recommendation a = ''The campaign is considered cost-effective.''
            \<longleftrightarrow> py_gt (cost_efficiency a) (lit (5 / 100)) = Inr True)
       \<and> (\<forall>k v. k \<notin> set [''composite_score'', ''cac'', ''retention_rate'', ''roas'']
            \<longrightarrow> analyze_campaign (AList.update (KStr k) v th) c = Inr a)"
proof -
  note d = analyze_campaign_decisions [OF assms]
  have 1: "meets_thresholds a \<longleftrightarrow>
            bindE (lookup th ''composite_score'') (py_ge (composite_score a)) = Inr True
          \<and> bindE (lookup th ''cac'') (py_le (cac a)) = Inr True
          \<and> bindE (lookup th ''retention_rate'') (py_ge (retention_rate a)) = Inr True
          \<and> bindE (lookup th ''roas'') (py_ge (roas a)) = Inr True"
    using d by (cases "meets_thresholds a") (simp_all add: py_and_True [symmetric])
  have 2: "budget_recommendation a = ''The campaign is considered cost-effective.''
            \<longleftrightarrow> py_gt (cost_efficiency a) (lit (5 / 100)) = Inr True"
    using d by (auto split: if_splits)
  show ?thesis using 1 2 assms analyze_campaign_other_key by simp
qed

lemma c8_fl_1: "fl (1 / 100) = Fin (5764607523034235 / 576460752303423488)"
  by (rule fl_posI [where e = "-7" and p = "-59" and m = 5764607523034235])
     (simp_all add: pow2_def dbl_max_def)

lemma c8_fl_2: "fl (1 / 20) = Fin (3602879701896397 / 72057594037927936)"
  by (rule fl_posI [where e = "-5" and p = "-57" and m = 7205759403792794])
     (simp_all add: pow2_def dbl_max_def)


lemma analysis_A': "analyze_campaign thresholds converted_A = Inr analysis_A_result"
  by (simp add: analysis_A analysis_A_result_def)

text \<open>The same on the record of scenario A with the thresholds of the constructor.\<close>

theorem thresholds_configurable_witness:
  "analyze_campaign thresholds converted_A = Inr analysis_A_result
   \<and> meets_thresholds analysis_A_result
   \<and> bindE (lookup thresholds ''composite_score'') (py_ge (composite_score analysis_A_result)) = Inr True
   \<and> bindE (lookup thresholds ''cac'') (py_le (cac analysis_A_result)) = Inr True
   \<and> bindE (lookup thresholds ''retention_rate'') (py_ge (retention_rate analysis_A_result)) = Inr True
   \<and> bindE (lookup thresholds ''roas'') (py_ge (roas analysis_A_result)) = Inr True
   \<and> budget_recommendation analysis_A_result \<noteq> ''The campaign is considered cost-effective.''
   \<and> py_gt (cost_efficiency analysis_A_result) (lit (5 / 100)) = Inr False
   \<and> ''cost_efficiency'' \<notin> set [''composite_score'', ''cac'', ''retention_rate'', ''roas'']
   \<and> analyze_campaign (AList.update (KStr ''cost_efficiency'') (lit (1 / 100)) thresholds) converted_A
       = Inr analysis_A_result"
proof -
  have m: "meets_thresholds analysis_A_result" by (simp add: analysis_A_result_def)
  have g: "py_gt (cost_efficiency analysis_A_result) (lit (5 / 100)) = Inr False"
    by (simp add: analysis_A_result_def py_gt_def py_lt_def lit_def c8_fl_2)
  have k: "''cost_efficiency'' \<notin> set [''composite_score'', ''cac'', ''retention_rate'', ''roas'']"
    by simp
  show ?thesis
    using thresholds_configurable [OF analysis_A'] m g k
    by (simp add: analysis_A' analysis_A_result_def)
qed

text \<open>
  The claim as stated has the budget recommendation follow a configured minimum of the
  cost efficiency. With a minimum of 0.01 in the table, the cost efficiency 0.05 of
  scenario A is above it, and the recommendation is still to reassess the budget.
\<close>

theorem thresholds_counterexample:
  "analyze_campaign (AList.update (KStr ''cost_efficiency_min'') (lit (1 / 100)) thresholds)
     converted_A = Inr analysis_A_result
   \<and> cost_efficiency analysis_A_result = lit (5 / 100)
   \<and> py_gt (lit (5 / 100)) (lit (1 / 100)) = Inr True
   \<and> budget_recommendation analysis_A_result = ''Recommend a reassessment of the campaign budget.''"
  by (simp add: analyze_campaign_other_key analysis_A' analysis_A_result_def py_gt_def py_lt_def
      lit_def c8_fl_1 c8_fl_2)

section \<open>Operations that do not raise\<close>

lemma dbl_max_less: "dbl_max + 1 < 2 ^ 1024 - 2 ^ 970"
  by (simp add: dbl_max_def)

lemma in_range_f_add [simp]: "in_range (f_add x y)"
  by (cases x; cases y) simp_all

lemma in_range_f_neg [simp]: "in_range (f_neg x) = in_range x"
  by (cases x) simp_all

lemma in_range_f_sub [simp]: "in_range (f_sub x y)"
  by (simp add: f_sub_def)

lemma in_range_f_mul [simp]: "in_range (f_mul x y)"
  by (cases x; cases y) (simp_all add: inf_of_sign_def)

lemma in_range_div_value [simp]: "in_range (div_value x y)"
  by (cases x; cases y) (simp_all add: div_value_def dbl_max_def)

lemma f_div_ok: "y \<noteq> Fin 0 \<Longrightarrow> f_div x y = Inr (div_value x y)"
  by (cases x; cases y) (simp_all add: div_value_def)

lemma f_round2_ok:
  assumes "in_range x"
  shows "f_round2 x = Inr (round2_value x)"
proof (cases x)
  case (Fin q)
  define z :: rat where "z = of_int (rhe (q * 100))"
  have "\<bar>z - q * 100\<bar> \<le> 1 / 2" unfolding z_def by (rule rhe_close)
  then have "\<bar>z\<bar> \<le> \<bar>q\<bar> * 100 + 1 / 2" by linarith
  then have "\<bar>z\<bar> / 100 \<le> \<bar>q\<bar> + 1" by simp
  then have "\<bar>of_int (rhe (q * 100)) / 100\<bar> \<le> \<bar>q\<bar> + 1" by (simp add: z_def)
  also have "\<dots> \<le> dbl_max + 1" using assms Fin by simp
  also note dbl_max_less
  finally obtain r where "fl (of_int (rhe (q * 100)) / 100) = Fin r"
    using fl_finite by blast
  then show ?thesis using Fin by (simp add: round2_value_def)
qed (simp_all add: round2_value_def)

lemma in_range_round2_value [simp]: "in_range x \<Longrightarrow> in_range (round2_value x)"
  using fl_Fin_bound by (cases x) (auto simp add: round2_value_def split: pyfloat.splits)


lemma float_of_int_ok:
  assumes "\<bar>of_int n\<bar> \<le> dbl_max"
  shows "float_of_int n = Inr (Fin (float_value n))"
proof -
  have "\<bar>(of_int n :: rat)\<bar> < 2 ^ 1024 - 2 ^ 970" using assms dbl_max_less by linarith
  then obtain r where "fl (of_int n) = Fin r" using fl_finite by blast
  then show ?thesis by (simp add: float_of_int_def float_value_def)
qed

lemma float_value_pos:
  assumes "0 < n" "of_int n \<le> dbl_max"
  shows "float_value n \<noteq> 0"
proof -
  have n: "(1::rat) \<le> of_int n" using assms(1) by simp
  have "\<bar>(of_int n :: rat)\<bar> < 2 ^ 1024 - 2 ^ 970" using assms dbl_max_less by simp
  then obtain r where r: "fl (of_int n) = Fin r" using fl_finite by blast
  then have "1 \<le> r" using fl_ge_1 [OF n] by simp
  then show ?thesis using r by (simp add: float_value_def)
qed

lemma py_truediv_ints:
  assumes "n \<noteq> 0" "\<bar>of_int a / of_int n\<bar> \<le> dbl_max"
  shows "py_truediv (PInt a) (PInt n) = Inr (PFloat (Fin (ratio_value a n)))"
proof -
  have "\<bar>(of_int a / of_int n :: rat)\<bar> < 2 ^ 1024 - 2 ^ 970" using assms dbl_max_less by linarith
  then obtain r where "fl (of_int a / of_int n) = Fin r" using fl_finite by blast
  then show ?thesis using assms(1) by (simp add: py_truediv_def ratio_value_def)
qed

lemma ratio_value_nonpos:
  assumes "a \<le> 0" "0 < n"
  shows "ratio_value a n \<le> 0"
proof -
  have "(of_int a / of_int n :: rat) \<le> 0" using assms by (simp add: divide_le_0_iff)
  from fl_nonpos [OF this] show ?thesis by (auto simp add: ratio_value_def)
qed

lemma py_truediv_float_int:
  "py_truediv (PFloat x) (PInt n) =
     bindE (float_of_int n) (\<lambda>b. bindE (f_div x b) (\<lambda>r. Inr (PFloat r)))"
  by (simp add: py_truediv_def)

lemma py_truediv_floats:
  "py_truediv (PFloat x) (PFloat y) = bindE (f_div x y) (\<lambda>r. Inr (PFloat r))"
  by (simp add: py_truediv_def)

lemma py_mul_floats: "py_mul (PFloat x) (PFloat y) = Inr (PFloat (f_mul x y))"
  by (simp add: py_mul_def float_op_def)

lemma py_mul_float_int:
  "py_mul (PFloat x) (PInt n) = bindE (float_of_int n) (\<lambda>b. Inr (PFloat (f_mul x b)))"
  by (simp add: py_mul_def float_op_def)

lemma py_add_floats: "py_add (PFloat x) (PFloat y) = Inr (PFloat (f_add x y))"
  by (simp add: py_add_def float_op_def)

lemma py_sub_floats: "py_sub (PFloat x) (PFloat y) = Inr (PFloat (f_sub x y))"
  by (simp add: py_sub_def float_op_def)

lemma py_sub_ints: "py_sub (PInt a) (PInt b) = Inr (PInt (a - b))"
  by (simp add: py_sub_def)

lemma py_gt_floats: "py_gt (PFloat x) (PFloat y) = Inr (f_lt y x)"
  by (simp add: py_gt_def py_lt_def)

lemma py_ge_float_int: "py_ge (PFloat x) (PInt t) = Inr (f_le (Fin (of_int t)) x)"
  by (simp add: py_ge_def py_le_def)

lemma py_le_float_int: "py_le (PFloat x) (PInt t) = Inr (f_le x (Fin (of_int t)))"
  by (simp add: py_le_def)

lemmas py_float_ops =
  py_truediv_float_int py_truediv_floats py_mul_floats py_mul_float_int py_add_floats
  py_sub_floats py_sub_ints py_gt_floats py_ge_float_int py_le_float_int

lemma float_of_int_small: "\<bar>n\<bar> < 2 ^ 53 \<Longrightarrow> float_of_int n = Inr (Fin (of_int n))"
  by (simp add: float_of_int_def fl_of_int)

lemma f_lt_zero_nonzero: "f_lt (Fin 0) y \<Longrightarrow> y \<noteq> Fin 0"
  by (cases y) auto

text \<open>Signs, for the retention rate.\<close>

lemma f_le_zero_fl: "q \<le> 0 \<Longrightarrow> f_le (fl q) (Fin 0)"
  using fl_nonpos [of q] by auto

lemma f_le_zero_round2:
  assumes "f_le x (Fin 0)"
  shows "f_le (round2_value x) (Fin 0)"
proof (cases x)
  case (Fin q)
  then have "q * 100 \<le> of_int 0" using assms by simp
  then have "rhe (q * 100) \<le> 0" by (rule rhe_le)
  then have "(of_int (rhe (q * 100)) / 100 :: rat) \<le> 0" by simp
  from fl_nonpos [OF this] show ?thesis using Fin assms by (auto simp add: round2_value_def)
qed (use assms in \<open>simp_all add: round2_value_def\<close>)


lemma lookup_thresholds:
  "lookup thresholds ''composite_score'' = Inr (PInt 50)"
  "lookup thresholds ''cac'' = Inr (PInt 50)"
  "lookup thresholds ''retention_rate'' = Inr (PInt 90)"
  "lookup thresholds ''roas'' = Inr (PInt 3)"
  by (simp_all add: lookup_def thresholds_def)

lemma analyze_typed:
  assumes l: "lookup c ''campaign_id'' = Inr cid"
    "lookup c ''engagement_score'' = Inr (PFloat es)"
    "lookup c ''conversion_rate'' = Inr (PFloat cr)"
    "lookup c ''predictive_roi'' = Inr (PFloat roi)"
    "lookup c ''budget_usd'' = Inr (PFloat bud)"
    "lookup c ''total_campaign_spend'' = Inr (PFloat tcs)"
    "lookup c ''new_customers_acquired'' = Inr (PInt nca)"
    "lookup c ''customers_start'' = Inr (PInt cs)"
    "lookup c ''customers_end'' = Inr (PInt ce)"
    "lookup c ''revenue_generated'' = Inr (PFloat rvn)"
    "lookup c ''advertising_spend'' = Inr (PFloat ads)"
    and pos: "f_lt (Fin 0) bud" "f_lt (Fin 0) ads" "0 < nca" "0 < cs" "0 < ce"
    and bound: "of_int nca \<le> dbl_max" "of_int ce \<le> dbl_max"
  shows "\<exists>a. analyze_campaign thresholds c = Inr a
           \<and> (\<exists>x. retention_rate a = PFloat x \<and> (ce < nca \<longrightarrow> f_le x (Fin 0)))"
proof -
  have n1: "float_of_int nca = Inr (Fin (float_value nca))"
    using pos(3) bound(1) by (intro float_of_int_ok) simp
  have n2: "float_value nca \<noteq> 0"
    using float_value_pos [OF pos(3) bound(1)] by simp
  have d: "\<bar>of_int (ce - nca) / of_int cs :: rat\<bar> \<le> dbl_max"
  proof -
    have "\<bar>of_int (ce - nca) / of_int cs :: rat\<bar> = \<bar>of_int (ce - nca)\<bar> / of_int cs"
      using pos(4) by simp
    also have "\<dots> \<le> \<bar>of_int (ce - nca)\<bar> / 1"
      using pos(4) by (intro divide_left_mono) simp_all
    also have "\<dots> \<le> dbl_max" using pos(3,5) bound by (simp add: abs_le_iff) 
    finally show ?thesis .
  qed
  have r1: "py_truediv (PInt (ce - nca)) (PInt cs) = Inr (PFloat (Fin (ratio_value (ce - nca) cs)))"
    using pos(4) d by (intro py_truediv_ints) simp_all
  have b: "bud \<noteq> Fin 0" "ads \<noteq> Fin 0" using pos(1,2) by (auto dest: f_lt_zero_nonzero)
  define ret where "ret = round2_value (fl (ratio_value (ce - nca) cs * 100))"
  have sgn: "f_le ret (Fin 0)" if "ce < nca"
  proof -
    have "ratio_value (ce - nca) cs \<le> 0" using that pos(4) by (intro ratio_value_nonpos) simp_all
    then have "ratio_value (ce - nca) cs * 100 \<le> 0" by simp
    then show ?thesis unfolding ret_def by (intro f_le_zero_round2 f_le_zero_fl)
  qed
  have "\<exists>a. analyze_campaign thresholds c = Inr a \<and> retention_rate a = PFloat ret"
    unfolding analyze_campaign_def ret_def
    by (simp add: l lookup_thresholds py_float_ops lit_def n1 n2 r1 b f_div_ok f_round2_ok
        float_of_int_small py_and_def del: f_div.simps)
  then show ?thesis using sgn by auto
qed

section \<open>The analysis of a validated record\<close>

lemma field_positive:
  assumes "convert_field_types r = Inr c" "record_ok r" "map_of c (KStr k) = Some v"
    and "k \<in> set float_fields" "positive v = Inr True"
  shows "\<exists>x. v = PFloat x \<and> f_lt (Fin 0) x"
proof -
  from converted_field [OF assms(1,2,3)] obtain raw where
    "float_ok raw" "convert_value (KStr k) raw = Inr v" by blast
  from convert_float [OF assms(4) this(2,1)] have "(\<exists>x. v = PFloat x \<and> in_range x) \<or> num_of v = None"
    by auto
  from positive_True [OF assms(5) this] show ?thesis by blast
qed

lemma field_in_closed_range:
  assumes "convert_field_types r = Inr c" "record_ok r" "map_of c (KStr k) = Some v"
    and "k \<in> set float_fields" "in_closed_range lo hi v = Inr True"
  shows "\<exists>x. v = PFloat x"
proof -
  from converted_field [OF assms(1,2,3)] obtain raw where
    "float_ok raw" "convert_value (KStr k) raw = Inr v" by blast
  from convert_float [OF assms(4) this(2,1)] have "(\<exists>x. v = PFloat x \<and> in_range x) \<or> num_of v = None"
    by auto
  from in_closed_range_True [OF assms(5) this] show ?thesis by blast
qed

lemma field_count:
  assumes "convert_field_types r = Inr c" "record_ok r" "map_of c (KStr k) = Some v"
    and "k \<in> set count_fields" "positive_int v = Inr True"
  shows "\<exists>n. v = PInt n \<and> 0 < n \<and> of_int n \<le> dbl_max"
proof -
  from converted_field [OF assms(1,2,3)] obtain raw where
    raw: "float_ok raw" "convert_value (KStr k) raw = Inr v" by blast
  from positive_int_True [OF assms(5)] have "(\<exists>n. v = PInt n \<and> 0 < n) \<or> v = PBool True" .
  moreover from convert_count [OF assms(4) raw(2,1)]
  have "(\<exists>n. v = PInt n \<and> \<bar>of_int n\<bar> \<le> dbl_max) \<or> (num_of v = None \<or> v = PFloat NaN)"
    by auto
  ultimately show ?thesis by auto
qed

lemma passes_analysis:
  assumes conv: "convert_field_types r = Inr c" and ok: "record_ok r" and pass: "record_passes c"
  shows "\<exists>a nca cs ce bud ads.
           lookup c ''new_customers_acquired'' = Inr (PInt nca) \<and> 0 < nca
         \<and> lookup c ''customers_start'' = Inr (PInt cs) \<and> 0 < cs
         \<and> lookup c ''customers_end'' = Inr (PInt ce) \<and> 0 < ce
         \<and> lookup c ''budget_usd'' = Inr (PFloat bud) \<and> f_lt (Fin 0) bud
         \<and> lookup c ''advertising_spend'' = Inr (PFloat ads) \<and> f_lt (Fin 0) ads
         \<and> analyze_campaign thresholds c = Inr a
         \<and> (\<exists>x. retention_rate a = PFloat x \<and> (ce < nca \<longrightarrow> f_le x (Fin 0)))"
proof -
  note fc = field_count [OF conv ok] and fp = field_positive [OF conv ok]
    and fr = field_in_closed_range [OF conv ok]
  from pass obtain cid v1 v2 v3 v4 v5 v6 v7 v8 v9 v10 where m:
    "map_of c (KStr ''campaign_id'') = Some cid"
    "map_of c (KStr ''engagement_score'') = Some v1" "in_closed_range 0 100 v1 = Inr True"
    "map_of c (KStr ''conversion_rate'') = Some v2" "in_closed_range 0 1 v2 = Inr True"
    "map_of c (KStr ''predictive_roi'') = Some v3" "positive v3 = Inr True"
    "map_of c (KStr ''budget_usd'') = Some v4" "positive v4 = Inr True"
    "map_of c (KStr ''total_campaign_spend'') = Some v5" "positive v5 = Inr True"
    "map_of c (KStr ''new_customers_acquired'') = Some v6" "positive_int v6 = Inr True"
    "map_of c (KStr ''customers_start'') = Some v7" "positive_int v7 = Inr True"
    "map_of c (KStr ''customers_end'') = Some v8" "positive_int v8 = Inr True"
    "map_of c (KStr ''revenue_generated'') = Some v9" "positive v9 = Inr True"
    "map_of c (KStr ''advertising_spend'') = Some v10" "positive v10 = Inr True"
    by (auto simp add: record_passes_def required_fields_def field_validations_def
        split: option.splits)
  from fr [OF m(2) _ m(3)] obtain es where es: "v1 = PFloat es" by (auto simp add: float_fields_def)
  from fr [OF m(4) _ m(5)] obtain cr where cr: "v2 = PFloat cr" by (auto simp add: float_fields_def)
  from fp [OF m(6) _ m(7)] obtain roi where roi: "v3 = PFloat roi" by (auto simp add: float_fields_def)
  from fp [OF m(8) _ m(9)] obtain bud where bud: "v4 = PFloat bud" "f_lt (Fin 0) bud"
    by (auto simp add: float_fields_def)
  from fp [OF m(10) _ m(11)] obtain tcs where tcs: "v5 = PFloat tcs" by (auto simp add: float_fields_def)
  from fc [OF m(12) _ m(13)] obtain nca where nca: "v6 = PInt nca" "0 < nca" "of_int nca \<le> dbl_max"
    by (auto simp add: count_fields_def)
  from fc [OF m(14) _ m(15)] obtain cs where cs: "v7 = PInt cs" "0 < cs"
    by (auto simp add: count_fields_def)
  from fc [OF m(16) _ m(17)] obtain ce where ce: "v8 = PInt ce" "0 < ce" "of_int ce \<le> dbl_max"
    by (auto simp add: count_fields_def)
  from fp [OF m(18) _ m(19)] obtain rvn where rvn: "v9 = PFloat rvn" by (auto simp add: float_fields_def)
  from fp [OF m(20) _ m(21)] obtain ads where ads: "v10 = PFloat ads" "f_lt (Fin 0) ads"
    by (auto simp add: float_fields_def)
  have l: "lookup c ''campaign_id'' = Inr cid"
    "lookup c ''engagement_score'' = Inr (PFloat es)"
    "lookup c ''conversion_rate'' = Inr (PFloat cr)"
    "lookup c ''predictive_roi'' = Inr (PFloat roi)"
    "lookup c ''budget_usd'' = Inr (PFloat bud)"
    "lookup c ''total_campaign_spend'' = Inr (PFloat tcs)"
    "lookup c ''new_customers_acquired'' = Inr (PInt nca)"
    "lookup c ''customers_start'' = Inr (PInt cs)"
    "lookup c ''customers_end'' = Inr (PInt ce)"
    "lookup c ''revenue_generated'' = Inr (PFloat rvn)"
    "lookup c ''advertising_spend'' = Inr (PFloat ads)"
    using m es cr roi bud tcs nca cs ce rvn ads by (simp_all add: lookup_def)
  from analyze_typed [OF l bud(2) ads(2) nca(2) cs(2) ce(2) nca(3) ce(3)]
  obtain a x where "analyze_campaign thresholds c = Inr a" "retention_rate a = PFloat x"
    "ce < nca \<longrightarrow> f_le x (Fin 0)" by blast
  then show ?thesis
    using l nca(2) cs(2) ce(2) bud(2) ads(2) by blast
qed

lemma validated_record:
  assumes "validate_data (PList rs) = Inr res" "list_all record_ok rs" "c \<in> set (data res)"
  shows "\<exists>r. convert_field_types r = Inr c \<and> record_ok r \<and> record_passes c"
proof (cases "rs = []")
  case True
  then show ?thesis using assms by (auto simp add: validate_data_def)
next
  case False
  from validate_data_list [OF assms(1) False] obtain st n m where
    st: "validate_loop 0 rs \<lparr>valid = True, errs = [], validated_data = []\<rparr> = Inr st"
    and res: "res = \<lparr>is_valid = valid st, errors = map PStr (errs st),
                     report = report_text n m (valid st) (errs st), data = validated_data st\<rparr>"
    by blast
  from validate_loop_result [OF st] obtain cs where cs:
    "list_all2 (\<lambda>r c. convert_field_types r = Inr c) rs cs"
    "validated_data st = filter record_passes cs" by auto
  have "c \<in> set cs" "record_passes c" using assms(3) cs(2) res by auto
  then obtain i where i: "i < length cs" "cs ! i = c" by (auto simp add: in_set_conv_nth)
  then have "convert_field_types (rs ! i) = Inr c" "rs ! i \<in> set rs"
    using cs(1) by (auto simp add: list_all2_conv_all_nth)
  then show ?thesis using assms(2) \<open>record_passes c\<close> by (auto simp add: list_all_iff)
qed

section \<open>The Metrics Engine on validated records\<close>

lemma analyze_campaigns_total:
  assumes "\<forall>c\<in>set cs. \<exists>a. analyze_campaign th c = Inr a"
  shows "\<exists>as. analyze_campaigns th cs = Inr as \<and> length as = length cs"
  using assms by (induction cs) auto

lemma validate_good:
  "\<exists>rep. validate_data (PList [PDict good_record]) =
      Inr \<lparr>is_valid = True, errors = [], report = rep, data = [converted_A]\<rparr>"
  by (simp add: good_record_def converted_A_def eval_defs)

lemma validate_neg:
  "\<exists>rep. validate_data (PList [PDict record_neg]) =
      Inr \<lparr>is_valid = True, errors = [], report = rep, data = [converted_neg]\<rparr>"
  by (simp add: record_neg_def converted_neg_def eval_defs)

lemma record_ok_examples: "list_all record_ok [PDict good_record]" "list_all record_ok [PDict record_neg]"
  by (simp_all add: good_record_def record_neg_def dbl_max_def)

subsection \<open>The roundings of the second example\<close>

lemma sN_fl_1: "fl (1 / 100000) = Fin (5902958103587057 / 590295810358705651712)"
  by (rule fl_posI [where e = "-17" and p = "-69" and m = 5902958103587057])
     (simp_all add: pow2_def dbl_max_def)

lemma sN_fl_2: "fl (- (1 / 100000)) = Fin (- (5902958103587057 / 590295810358705651712))"
  using fl_negI [OF sN_fl_1] by simp

lemma sN_fl_3: "fl (147573952589676425 / 147573952589676412928) = Fin (1152921504606847 / 1152921504606846976)"
  by (rule fl_posI [where e = "-10" and p = "-62" and m = 4611686018427388])
     (simp_all add: pow2_def dbl_max_def)

lemma sN_fl_4: "fl (- (147573952589676425 / 147573952589676412928)) = Fin (- (1152921504606847 / 1152921504606846976))"
  using fl_negI [OF sN_fl_3] by simp

lemma sN_rhe_1: "rhe (- (28823037615171175 / 288230376151711744)) = 0"
  by (rule rhe_eqI) simp_all

lemma sN_fl_5: "fl (1 / 2) = Fin (1 / 2)"
  by (rule fl_posI [where e = "-1" and p = "-53" and m = 4503599627370496])
     (simp_all add: pow2_def dbl_max_def)

lemma sN_fl_6: "fl (3 / 10) = Fin (5404319552844595 / 18014398509481984)"
  by (rule fl_posI [where e = "-2" and p = "-54" and m = 5404319552844595])
     (simp_all add: pow2_def dbl_max_def)

lemma sN_fl_7: "fl (135107988821114875 / 18014398509481984) = Fin (15 / 2)"
  by (rule fl_posI [where e = "2" and p = "-50" and m = 8444249301319680])
     (simp_all add: pow2_def dbl_max_def)

lemma sN_fl_8: "fl (15 / 2) = Fin (15 / 2)"
  by (rule fl_posI [where e = "2" and p = "-50" and m = 8444249301319680])
     (simp_all add: pow2_def dbl_max_def)

lemma sN_fl_9: "fl (1 / 5) = Fin (3602879701896397 / 18014398509481984)"
  by (rule fl_posI [where e = "-3" and p = "-55" and m = 7205759403792794])
     (simp_all add: pow2_def dbl_max_def)

lemma sN_fl_10: "fl (126100789566373895 / 9007199254740992) = Fin 14"
  by (rule fl_posI [where e = "3" and p = "-49" and m = 7881299347898368])
     (simp_all add: pow2_def dbl_max_def)

lemma sN_fl_11: "fl (1 / 20) = Fin (3602879701896397 / 72057594037927936)"
  by (rule fl_posI [where e = "-5" and p = "-57" and m = 7205759403792794])
     (simp_all add: pow2_def dbl_max_def)

lemma sN_fl_12: "fl (630503947831869475 / 18014398509481984) = Fin 35"
  by (rule fl_posI [where e = "5" and p = "-47" and m = 4925812092436480])
     (simp_all add: pow2_def dbl_max_def)

lemma sN_fl_13: "fl (1 / 10) = Fin (3602879701896397 / 36028797018963968)"
  by (rule fl_posI [where e = "-4" and p = "-56" and m = 7205759403792794])
     (simp_all add: pow2_def dbl_max_def)

lemma sN_fl_14_tie: "rhe (10808639105689191 / 2) = 5404319552844596"
  by (rule rhe_tieI [where f = 5404319552844595]) simp_all

lemma sN_fl_14: "fl (10808639105689191 / 18014398509481984) = Fin (1351079888211149 / 2251799813685248)"
  by (rule fl_posR [where e = "-1" and p = "-53" and m = 5404319552844596])
     (simp_all add: pow2_def dbl_max_def sN_fl_14_tie)

lemma sN_rhe_2: "rhe (33776997205278725 / 562949953421312) = 60"
  by (rule rhe_eqI) simp_all

lemma sN_fl_15: "fl (3 / 5) = Fin (5404319552844595 / 9007199254740992)"
  by (rule fl_posI [where e = "-1" and p = "-53" and m = 5404319552844595])
     (simp_all add: pow2_def dbl_max_def)

lemma sN_fl_16: "fl (95 / 2) = Fin (95 / 2)"
  by (rule fl_posI [where e = "5" and p = "-47" and m = 6685030696878080])
     (simp_all add: pow2_def dbl_max_def)

lemma sN_fl_17: "fl (123 / 2) = Fin (123 / 2)"
  by (rule fl_posI [where e = "5" and p = "-47" and m = 8655355533852672])
     (simp_all add: pow2_def dbl_max_def)

lemma sN_fl_18: "fl (53 / 2) = Fin (53 / 2)"
  by (rule fl_posI [where e = "4" and p = "-48" and m = 7459086882832384])
     (simp_all add: pow2_def dbl_max_def)

lemma sN_fl_19: "fl (244095099803480883 / 9007199254740992) = Fin (3813985934429389 / 140737488355328)"
  by (rule fl_posI [where e = "4" and p = "-48" and m = 7627971868858778])
     (simp_all add: pow2_def dbl_max_def)

lemma sN_rhe_3: "rhe (95349648360734725 / 35184372088832) = 2710"
  by (rule rhe_eqI) simp_all

lemma sN_fl_20: "fl (271 / 10) = Fin (3813985934429389 / 140737488355328)"
  by (rule fl_posI [where e = "4" and p = "-48" and m = 7627971868858778])
     (simp_all add: pow2_def dbl_max_def)

lemma sN_fl_21: "fl (3813985934429389 / 211106232532992000) = Fin (2603681064570463 / 144115188075855872)"
  by (rule fl_posI [where e = "-6" and p = "-58" and m = 5207362129140926])
     (simp_all add: pow2_def dbl_max_def)

lemma sN_rhe_4: "rhe (65092026614261575 / 36028797018963968) = 2"
  by (rule rhe_eqI) simp_all

lemma sN_fl_22: "fl (1 / 50) = Fin (5764607523034235 / 288230376151711744)"
  by (rule fl_posI [where e = "-6" and p = "-58" and m = 5764607523034235])
     (simp_all add: pow2_def dbl_max_def)

lemmas sN_certs = sN_fl_1 sN_fl_2 sN_fl_3 sN_fl_4 sN_rhe_1 sN_fl_5 sN_fl_6 sN_fl_7 sN_fl_8 sN_fl_9 sN_fl_10 sN_fl_11 sN_fl_12 sN_fl_13 sN_fl_14 sN_rhe_2 sN_fl_15 sN_fl_16 sN_fl_17 sN_fl_18 sN_fl_19 sN_rhe_3 sN_fl_20 sN_fl_21 sN_rhe_4 sN_fl_22

subsection \<open>The three claims\<close>

lemma analysis_of_neg: "analyze_campaign thresholds converted_neg = Inr analysis_neg"
  by (simp add: analyze_campaign_def converted_neg_def analysis_neg_def thresholds_def lookup_def
      op_defs sN_certs)


text \<open>
  Claim C1. Every record that the Validator collects, from a batch whose floats are
  binary64 numbers, is analysed without an exception: its two counts in the denominators
  are positive integers, its advertising spend and its budget are positive floats, so no
  denominator is zero, and the analysis returns a result. So the analysis of all collected records returns, one result
  per record, and \<open>process_data\<close> returns on every text that parses to the batch.
\<close>

theorem analyze_never_raises:
  assumes "validate_data (PList rs) = Inr res" and "list_all record_ok rs"
    and "c \<in> set (data res)"
  shows "(\<exists>a nca cs bud ads.
            lookup c ''new_customers_acquired'' = Inr (PInt nca) \<and> 0 < nca
          \<and> lookup c ''customers_start'' = Inr (PInt cs) \<and> 0 < cs
          \<and> lookup c ''advertising_spend'' = Inr (PFloat ads) \<and> f_lt (Fin 0) ads \<and> ads \<noteq> Fin 0
          \<and> lookup c ''budget_usd'' = Inr (PFloat bud) \<and> f_lt (Fin 0) bud \<and> bud \<noteq> Fin 0
          \<and> analyze_campaign thresholds c = Inr a)
       \<and> (\<exists>as. analyze_campaigns thresholds (data res) = Inr as \<and> length as = length (data res))
       \<and> (\<forall>json_loads csv_DictReader s. parse_data json_loads csv_DictReader s = PList rs
            \<longrightarrow> (\<exists>out. process_data json_loads csv_DictReader thresholds s = Inr out))"
proof -
  have each: "\<exists>a. analyze_campaign thresholds c' = Inr a" if "c' \<in> set (data res)" for c'
  proof -
    from validated_record [OF assms(1,2) that] obtain r where
      "convert_field_types r = Inr c'" "record_ok r" "record_passes c'" by blast
    from passes_analysis [OF this] show ?thesis by blast
  qed
  from validated_record [OF assms] obtain r where
    "convert_field_types r = Inr c" "record_ok r" "record_passes c" by blast
  from passes_analysis [OF this] have 1: "\<exists>a nca cs bud ads.
            lookup c ''new_customers_acquired'' = Inr (PInt nca) \<and> 0 < nca
          \<and> lookup c ''customers_start'' = Inr (PInt cs) \<and> 0 < cs
          \<and> lookup c ''advertising_spend'' = Inr (PFloat ads) \<and> f_lt (Fin 0) ads \<and> ads \<noteq> Fin 0
          \<and> lookup c ''budget_usd'' = Inr (PFloat bud) \<and> f_lt (Fin 0) bud \<and> bud \<noteq> Fin 0
          \<and> analyze_campaign thresholds c = Inr a"
    by (elim exE conjE) (intro exI conjI, (assumption | erule f_lt_zero_nonzero)+)
  from analyze_campaigns_total [of "data res" thresholds] each
  obtain as where as: "analyze_campaigns thresholds (data res) = Inr as" "length as = length (data res)"
    by blast
  have 3: "\<exists>out. process_data j cr thresholds s = Inr out" if "parse_data j cr s = PList rs" for j cr s
    using that assms(1) as(1) by (simp add: process_data_def)
  show ?thesis using 1 as 3 by blast
qed

text \<open>The same at the batch of the valid example record.\<close>

theorem analyze_never_raises_witness:
  "\<exists>res. validate_data (PList [PDict good_record]) = Inr res
     \<and> list_all record_ok [PDict good_record]
     \<and> converted_A \<in> set (data res)
     \<and> (\<exists>a. analyze_campaign thresholds converted_A = Inr a)
     \<and> (\<exists>as. analyze_campaigns thresholds (data res) = Inr as \<and> length as = length (data res))
     \<and> parse_data json_records (\<lambda>s. None) text_good = PList [PDict good_record]
     \<and> (\<exists>out. process_data json_records (\<lambda>s. None) thresholds text_good = Inr out)"
proof -
  from validate_good obtain res where
    v: "validate_data (PList [PDict good_record]) = Inr res" and d: "converted_A \<in> set (data res)"
    by auto
  have p: "parse_data json_records (\<lambda>s. None) text_good = PList [PDict good_record]"
    by (simp add: parse_data_def strip_defs json_records_def text_good_def good_record_def)
  from analyze_never_raises [OF v record_ok_examples(1) d] v d p record_ok_examples(1)
  show ?thesis by blast
qed

text \<open>
  Claim C4. For every record collected by the Validator, with the thresholds of the
  constructor: the analysis returns; \<open>meets_thresholds\<close> holds exactly when the composite
  score is at least 50, the acquisition cost at most 50, the retention rate at least 90 and
  the return on advertising spend at least 3; the status is Optimal exactly then, and Needs
  Improvement otherwise; and the budget recommendation is the cost-effective one exactly
  when the cost efficiency is above 0.05.
\<close>

theorem threshold_decisions:
  assumes "validate_data (PList rs) = Inr res" and "list_all record_ok rs"
    and "c \<in> set (data res)"
  shows "\<exists>a. analyze_campaign thresholds c = Inr a
          \<and> (meets_thresholds a \<longleftrightarrow>
                py_ge (composite_score a) (PInt 50) = Inr True
              \<and> py_le (cac a) (PInt 50) = Inr True
              \<and> py_ge (retention_rate a) (PInt 90) = Inr True
              \<and> py_ge (roas a) (PInt 3) = Inr True)
          \<and> status a = (if meets_thresholds a then ''Optimal'' else ''Needs Improvement'')
          \<and> (budget_recommendation a = ''The campaign is considered cost-effective.''
                \<longleftrightarrow> py_gt (cost_efficiency a) (lit (5 / 100)) = Inr True)"
proof -
  from validated_record [OF assms] obtain r where
    "convert_field_types r = Inr c" "record_ok r" "record_passes c" by blast
  from passes_analysis [OF this] obtain a where a: "analyze_campaign thresholds c = Inr a" by blast
  note d = analyze_campaign_decisions [OF a]
  have 1: "meets_thresholds a \<longleftrightarrow>
                py_ge (composite_score a) (PInt 50) = Inr True
              \<and> py_le (cac a) (PInt 50) = Inr True
              \<and> py_ge (retention_rate a) (PInt 90) = Inr True
              \<and> py_ge (roas a) (PInt 3) = Inr True"
    using d by (cases "meets_thresholds a") (simp_all add: lookup_thresholds py_and_True [symmetric])
  have 2: "budget_recommendation a = ''The campaign is considered cost-effective.''
            \<longleftrightarrow> py_gt (cost_efficiency a) (lit (5 / 100)) = Inr True"
    using d by (auto split: if_splits)
  show ?thesis using a 1 2 d by blast
qed


text \<open>The same at the valid example record, which is Optimal and not cost-effective.\<close>

theorem threshold_decisions_witness:
  "\<exists>res. validate_data (PList [PDict good_record]) = Inr res
     \<and> list_all record_ok [PDict good_record]
     \<and> converted_A \<in> set (data res)
     \<and> analyze_campaign thresholds converted_A = Inr analysis_A_result
     \<and> meets_thresholds analysis_A_result
     \<and> py_ge (composite_score analysis_A_result) (PInt 50) = Inr True
     \<and> py_le (cac analysis_A_result) (PInt 50) = Inr True
     \<and> py_ge (retention_rate analysis_A_result) (PInt 90) = Inr True
     \<and> py_ge (roas analysis_A_result) (PInt 3) = Inr True
     \<and> status analysis_A_result = ''Optimal''
     \<and> budget_recommendation analysis_A_result \<noteq> ''The campaign is considered cost-effective.''
     \<and> py_gt (cost_efficiency analysis_A_result) (lit (5 / 100)) \<noteq> Inr True"
proof -
  from validate_good obtain res where
    v: "validate_data (PList [PDict good_record]) = Inr res" and d: "converted_A \<in> set (data res)"
    by auto
  have m: "meets_thresholds analysis_A_result" by (simp add: analysis_A_result_def)
  have b: "budget_recommendation analysis_A_result \<noteq> ''The campaign is considered cost-effective.''"
    by (simp add: analysis_A_result_def)
  from threshold_decisions [OF v record_ok_examples(1) d] v d m b record_ok_examples(1)
  show ?thesis by (auto simp add: analysis_A')
qed

text \<open>
  Claim C9, as the code has it. A record collected by the Validator that has acquired more
  customers than it has at the end is analysed without an exception, and its retention
  rate is never positive: it is negative, or zero when the negative ratio is rounded to
  zero at two decimals.
\<close>

theorem nonpositive_retention:
  assumes "validate_data (PList rs) = Inr res" and "list_all record_ok rs"
    and "c \<in> set (data res)"
    and "lookup c ''new_customers_acquired'' = Inr (PInt n)"
    and "lookup c ''customers_end'' = Inr (PInt e)" and "e < n"
  shows "\<exists>a x. analyze_campaign thresholds c = Inr a \<and> retention_rate a = PFloat x
           \<and> f_le x (Fin 0) \<and> py_gt (retention_rate a) (PInt 0) = Inr False"
proof -
  from validated_record [OF assms(1,2,3)] obtain r where
    "convert_field_types r = Inr c" "record_ok r" "record_passes c" by blast
  from passes_analysis [OF this] assms(4,5,6) obtain a x where
    a: "analyze_campaign thresholds c = Inr a" "retention_rate a = PFloat x" "f_le x (Fin 0)"
    by auto
  have "py_gt (PFloat x) (PInt 0) = Inr False"
    using a(3) by (cases x) (simp_all add: py_gt_def py_lt_def)
  then show ?thesis using a by auto
qed

text \<open>The same at a record with 2 new customers, 1 customer at the end and 100000 at the start.\<close>

theorem nonpositive_retention_witness:
  "\<exists>res. validate_data (PList [PDict record_neg]) = Inr res
     \<and> list_all record_ok [PDict record_neg]
     \<and> converted_neg \<in> set (data res)
     \<and> lookup converted_neg ''new_customers_acquired'' = Inr (PInt 2)
     \<and> lookup converted_neg ''customers_end'' = Inr (PInt 1) \<and> (1::int) < 2
     \<and> analyze_campaign thresholds converted_neg = Inr analysis_neg
     \<and> f_le (Fin 0) (Fin 0)
     \<and> py_gt (retention_rate analysis_neg) (PInt 0) = Inr False"
proof -
  from validate_neg obtain res where
    v: "validate_data (PList [PDict record_neg]) = Inr res" and d: "converted_neg \<in> set (data res)"
    by auto
  have l: "lookup converted_neg ''new_customers_acquired'' = Inr (PInt 2)"
    "lookup converted_neg ''customers_end'' = Inr (PInt 1)"
    by (simp_all add: lookup_def converted_neg_def)
  have lt: "(1::int) < 2" by simp
  from nonpositive_retention [OF v record_ok_examples(2) d l lt] v d l record_ok_examples(2)
  show ?thesis by (auto simp add: analysis_of_neg)
qed

text \<open>
  The claim as stated makes the retention rate negative. On that record, which passes the
  Validator, the ratio is \<open>-0.001\<close> percent, rounded to two decimals it is zero, and the
  comparison with 0 is false.
\<close>

theorem negative_retention_counterexample:
  "map_sum id data (validate_data (PList [PDict record_neg])) = Inr [converted_neg]
   \<and> map_sum id is_valid (validate_data (PList [PDict record_neg])) = Inr True
   \<and> lookup converted_neg ''new_customers_acquired'' = Inr (PInt 2)
   \<and> lookup converted_neg ''customers_end'' = Inr (PInt 1)
   \<and> analyze_campaign thresholds converted_neg = Inr analysis_neg
   \<and> retention_rate analysis_neg = PFloat (Fin 0)
   \<and> py_lt (retention_rate analysis_neg) (PInt 0) = Inr False"
proof -
  from validate_neg obtain rep where
    v: "validate_data (PList [PDict record_neg]) =
      Inr \<lparr>is_valid = True, errors = [], report = rep, data = [converted_neg]\<rparr>" by blast
  have l: "lookup converted_neg ''new_customers_acquired'' = Inr (PInt 2)"
    "lookup converted_neg ''customers_end'' = Inr (PInt 1)"
    by (simp_all add: lookup_def converted_neg_def)
  have r: "retention_rate analysis_neg = PFloat (Fin 0)"
    "py_lt (retention_rate analysis_neg) (PInt 0) = Inr False"
    by (simp_all add: analysis_neg_def py_lt_def)
  show ?thesis by (simp add: v l r analysis_of_neg py_lt_def)
qed

end
